theory Spec2Isabelle
  imports Main "HOL-Library.Word"
begin

unbundle bit_operations_syntax

section \<open>Data model of sch\_fq\_codel\_cuckoo\_bitmask.c\<close>

type_synonym u8 = "8 word"
type_synonym u16 = "16 word"
type_synonym u32 = "32 word"

text \<open>
  Faults of the C code that the model keeps as values: an array access outside the
  allocated object, a dereference of a NULL packet pointer, and the error returns of the
  configuration path.
\<close>

datatype error = OutOfBounds int | NullDeref | EINVAL

text \<open>
  A packet buffer. The fields are what the scheduler reads: \<open>skb_hash\<close> is
  \<open>skb_get_hash(skb)\<close>, \<open>skb_hash_perturb\<close> is \<open>skb_get_hash_perturb(skb, seed)\<close> as a
  function of the seed, \<open>pkt_len\<close> is \<open>qdisc_pkt_len(skb)\<close>, \<open>mem_usage\<close> is
  \<open>get_codel_cb(skb)->mem_usage\<close>. The enqueue time stamp is not modelled.
\<close>

record sk_buff =
  skb_hash :: u32
  skb_hash_perturb :: "u32 \<Rightarrow> u32"
  priority :: u32
  pkt_len :: u32
  truesize :: u32
  mem_usage :: u32

text \<open>
  \<open>struct fq_codel_flow\<close>. The chain \<open>head \<dots> tail\<close> linked through \<open>skb->next\<close> is the list
  \<open>queue\<close>; \<open>head == NULL\<close> is \<open>queue = []\<close>. The \<open>flowchain\<close> links are the two index lists
  \<open>new_flows\<close> and \<open>old_flows\<close> of the scheduler data. \<open>deficit\<close> is a C \<open>int\<close>, read
  with the signed order. The CoDel variables \<open>cvars\<close> live in the CoDel engine.
\<close>

record fq_codel_flow =
  queue :: "sk_buff list"
  deficit :: u32
  dropped :: u32

record codel_params =
  target :: u32
  ce_threshold :: u32
  interval :: u32
  ecn :: bool
  mtu :: u32

record codel_stats =
  drop_count :: u32
  drop_len :: u32
  ecn_mark :: u32

text \<open>
  The result of the external classifier \<open>tcf_classify\<close>: its return code and the class id
  it writes to \<open>res.classid\<close>.
\<close>

type_synonym tcf_proto = "sk_buff \<Rightarrow> int \<times> u32"

record fq_codel_sched_data =
  filter_list :: "tcf_proto option"
  hashtable :: "u16 list"
  random_seed :: "u32 list"
  empty_flow_mask :: "u32 list"
  flow_mask_index :: u32
  flows :: "fq_codel_flow list"
  backlogs :: "u32 list"
  flows_cnt :: u32
  quantum :: u32
  drop_batch_size :: u32
  memory_limit :: u32
  cparams :: codel_params
  cstats :: codel_stats
  memory_usage :: u32
  drop_overmemory :: u32
  drop_overlimit :: u32
  new_flow_count :: u32
  new_flows :: "nat list"
  old_flows :: "nat list"

text \<open>
  \<open>struct Qdisc\<close>, with the fields this file uses: \<open>sch->handle\<close>, \<open>sch->limit\<close>,
  \<open>sch->q.qlen\<close>, \<open>sch->qstats.backlog\<close>, \<open>sch->qstats.drops\<close>, the byte and packet
  counters of \<open>sch->bstats\<close>, and the private area \<open>qdisc_priv(sch)\<close>.
\<close>

record Qdisc =
  handle :: u32
  limit :: u32
  qlen :: u32
  qstats_backlog :: u32
  qstats_drops :: u32
  bstats_bytes :: "64 word"
  bstats_packets :: u32
  priv :: fq_codel_sched_data

section \<open>Kernel helpers used by the file\<close>

text \<open>
  Modelled from the spec: \<open>ffs\<close> (linux/bitops.h) is not part of the file. It is the
  find-first-set of the spec's empty-slot index: the position of the least significant
  set bit counted from 1, and 0 for the word 0.
\<close>

definition ffs :: "u32 \<Rightarrow> nat" where
  "ffs x = (case find (bit x) [0..<32] of None \<Rightarrow> 0 | Some k \<Rightarrow> Suc k)"

text \<open>
  Modelled from the spec: \<open>reciprocal_scale\<close> (linux/kernel.h) is not part of the file.
  The spec describes the reduction of a 32-bit hash to a bucket of one sub-table as
  \<open>H(packet) mod N\<close>.
\<close>

definition reciprocal_scale :: "u32 \<Rightarrow> u32 \<Rightarrow> u32" where
  "reciprocal_scale val ep_ro = val mod ep_ro"

text \<open>
  Modelled from the spec: \<open>TC_H_MAJ\<close> and \<open>TC_H_MIN\<close> (linux/pkt_sched.h) are not part of
  the file. They are the major number (upper 16 bits, kept in place) and the minor
  number (lower 16 bits) of a 32-bit handle.
\<close>

definition TC_H_MAJ :: "u32 \<Rightarrow> u32" where
  "TC_H_MAJ h = h AND 0xFFFF0000"

definition TC_H_MIN :: "u32 \<Rightarrow> u32" where
  "TC_H_MIN h = h AND 0x0000FFFF"

text \<open>
  \<open>memset(p, c, n)\<close> writes the byte \<open>c\<close> to each of the \<open>n\<close> bytes. On an array of
  32-bit words every word becomes the byte repeated four times; on an array of 16-bit
  words, twice.
\<close>

definition memset_u32 :: "u8 \<Rightarrow> u32" where
  "memset_u32 c = ucast c OR push_bit 8 (ucast c) OR push_bit 16 (ucast c) OR push_bit 24 (ucast c)"

definition memset_u16 :: "u8 \<Rightarrow> u16" where
  "memset_u16 c = ucast c OR push_bit 8 (ucast c)"

definition memset_words :: "'a list \<Rightarrow> 'a \<Rightarrow> nat \<Rightarrow> 'a list" where
  "memset_words xs w n = replicate (min n (length xs)) w @ drop n xs"

section \<open>Faults as values\<close>

definition bindE :: "error + 'a \<Rightarrow> ('a \<Rightarrow> error + 'b) \<Rightarrow> error + 'b" where
  "bindE m f = (case m of Inl e \<Rightarrow> Inl e | Inr x \<Rightarrow> f x)"

text \<open>A C array read \<open>a[i]\<close>: outside the allocated object it is a fault.\<close>

definition array_at :: "'a list \<Rightarrow> int \<Rightarrow> error + 'a" where
  "array_at xs i = (if 0 \<le> i \<and> i < int (length xs) then Inr (xs ! nat i) else Inl (OutOfBounds i))"

section \<open>The empty-slot index\<close>

definition get_next_empty_flow :: "fq_codel_sched_data \<Rightarrow> nat" where
  "get_next_empty_flow q =
     (if ffs (flow_mask_index q) = 0 then 0
      else let right_most_set_zone = 32 - ffs (flow_mask_index q)
           in right_most_set_zone * 32 + (32 - ffs (empty_flow_mask q ! right_most_set_zone)))"

text \<open>
  \<open>mark_flow_as_empty\<close> and \<open>mark_flow_as_non_empty\<close> index \<open>empty_flow_mask\<close>, an array of
  32 words, with \<open>idx/32\<close>, and shift by \<open>32 - (idx/32+1)\<close>: for \<open>idx \<ge> 1024\<close> the access is
  outside the array (and the shift count negative).
\<close>

definition mark_flow_as_empty :: "fq_codel_sched_data \<Rightarrow> nat \<Rightarrow> error + fq_codel_sched_data" where
  "mark_flow_as_empty q idx =
     (if idx div 32 < 32 then
        bindE (array_at (empty_flow_mask q) (int (idx div 32))) (\<lambda>w.
          Inr (q\<lparr>flow_mask_index := flow_mask_index q OR push_bit (32 - (idx div 32 + 1)) 1,
                 empty_flow_mask := (empty_flow_mask q)
                   [idx div 32 := w OR push_bit (32 - (idx mod 32 + 1)) 1]\<rparr>))
      else Inl (OutOfBounds (int (idx div 32))))"

definition mark_flow_as_non_empty :: "fq_codel_sched_data \<Rightarrow> nat \<Rightarrow> error + fq_codel_sched_data" where
  "mark_flow_as_non_empty q idx =
     (if idx div 32 < 32 then
        bindE (array_at (empty_flow_mask q) (int (idx div 32))) (\<lambda>w0.
          let w = w0 AND NOT (push_bit (32 - (idx mod 32 + 1)) 1);
              q1 = q\<lparr>empty_flow_mask := (empty_flow_mask q)[idx div 32 := w]\<rparr>
          in if w = 0
             then Inr (q1\<lparr>flow_mask_index :=
                          flow_mask_index q1 AND NOT (push_bit (32 - (idx div 32 + 1)) 1)\<rparr>)
             else Inr q1)
      else Inl (OutOfBounds (int (idx div 32))))"

section \<open>The cuckoo flow table\<close>

definition fq_codel_hash_modified :: "fq_codel_sched_data \<Rightarrow> sk_buff \<Rightarrow> nat \<Rightarrow> nat" where
  "fq_codel_hash_modified q skb table_num =
     unat (flows_cnt q) * table_num
       + unat (reciprocal_scale (skb_hash_perturb skb (random_seed q ! table_num)) (flows_cnt q))"

text \<open>
  \<open>cuckoo_rehash\<close>: the \<open>for\<close> loop with counter \<open>i\<close>, which the body increments once more
  between its two halves. \<open>temp_index\<close> and \<open>value_to_insert\<close> are C \<open>int\<close>s; \<open>swap\<close>
  exchanges \<open>value_to_insert\<close> with the 16-bit bucket. Besides the outcome, the model
  returns the number of \<open>swap\<close>s the run has executed, which the C code does not keep.
\<close>

function cuckoo_rehash_from ::
  "nat \<Rightarrow> fq_codel_sched_data \<Rightarrow> sk_buff \<Rightarrow> int \<Rightarrow> nat \<times> (error + fq_codel_sched_data)" where
  "cuckoo_rehash_from i q skb value_to_insert =
     (if \<not> i < unat (flows_cnt q) then (0, Inr q)
      else
        let temp_index = int (fq_codel_hash_modified q skb 0) - 1 in
        case array_at (hashtable q) temp_index of
          Inl e \<Rightarrow> (0, Inl e)
        | Inr b \<Rightarrow>
            if b = 0
            then (0, Inr (q\<lparr>hashtable := (hashtable q)[nat temp_index := word_of_int value_to_insert]\<rparr>))
            else
              let q1 = q\<lparr>hashtable := (hashtable q)[nat temp_index := word_of_int value_to_insert]\<rparr>;
                  v1 = uint b;
                  i1 = i + 1
              in if i1 \<ge> unat (flows_cnt q) then (1, Inr q1)
                 else
                   case array_at (flows q1) (v1 - 1) of
                     Inl e \<Rightarrow> (1, Inl e)
                   | Inr flow1 \<Rightarrow>
                       (case queue flow1 of
                          [] \<Rightarrow> (1, Inr q1)
                        | skb1 # _ \<Rightarrow>
                            let temp_index1 = int (fq_codel_hash_modified q1 skb1 1) - 1 in
                            case array_at (hashtable q1) temp_index1 of
                              Inl e \<Rightarrow> (1, Inl e)
                            | Inr b1 \<Rightarrow>
                                if b1 = 0
                                then (1, Inr (q1\<lparr>hashtable :=
                                               (hashtable q1)[nat temp_index1 := word_of_int v1]\<rparr>))
                                else
                                  let q2 = q1\<lparr>hashtable :=
                                               (hashtable q1)[nat temp_index1 := word_of_int v1]\<rparr>;
                                      v2 = uint b1
                                  in case array_at (flows q2) (v2 - 1) of
                                       Inl e \<Rightarrow> (2, Inl e)
                                     | Inr flow2 \<Rightarrow>
                                         (case queue flow2 of
                                            [] \<Rightarrow> (2, Inr q2)
                                          | skb2 # _ \<Rightarrow>
                                              let (n, r) = cuckoo_rehash_from (i1 + 1) q2 skb2 v2
                                              in (n + 2, r))))"
  by pat_completeness auto
termination
  by (relation "measure (\<lambda>(i, q, skb, v). unat (flows_cnt q) - i)") auto

definition cuckoo_rehash ::
  "fq_codel_sched_data \<Rightarrow> sk_buff \<Rightarrow> int \<Rightarrow> error + fq_codel_sched_data" where
  "cuckoo_rehash q skb value_to_insert = snd (cuckoo_rehash_from 0 q skb value_to_insert)"

definition cuckoo_rehash_swaps :: "fq_codel_sched_data \<Rightarrow> sk_buff \<Rightarrow> int \<Rightarrow> nat" where
  "cuckoo_rehash_swaps q skb value_to_insert = fst (cuckoo_rehash_from 0 q skb value_to_insert)"

definition fq_codel_cuckoo_hash ::
  "fq_codel_sched_data \<Rightarrow> sk_buff \<Rightarrow> error + nat \<times> fq_codel_sched_data" where
  "fq_codel_cuckoo_hash q skb =
     (let hash1 = fq_codel_hash_modified q skb 0;
          hash2 = fq_codel_hash_modified q skb 1
      in bindE (array_at (hashtable q) (int hash1)) (\<lambda>a.
         bindE (array_at (hashtable q) (int hash2)) (\<lambda>b.
           if a = 0 \<and> b = 0 then
             let q1 = q\<lparr>hashtable := (hashtable q)[hash1 := of_nat (get_next_empty_flow q + 1)]\<rparr>
             in Inr (unat (hashtable q1 ! hash1), q1)
           else if a \<noteq> 0 \<and> b = 0 then
             bindE (array_at (flows q) (uint a - 1)) (\<lambda>flow.
               case queue flow of
                 [] \<Rightarrow> Inr (unat a, q)
               | h # _ \<Rightarrow>
                   if skb_hash h = skb_hash skb then Inr (unat a, q)
                   else
                     let q1 = q\<lparr>hashtable := (hashtable q)[hash2 := of_nat (get_next_empty_flow q + 1)]\<rparr>
                     in Inr (unat (hashtable q1 ! hash2), q1))
           else if a = 0 \<and> b \<noteq> 0 then
             bindE (array_at (flows q) (uint b - 1)) (\<lambda>flow.
               case queue flow of
                 [] \<Rightarrow> Inr (unat b, q)
               | h # _ \<Rightarrow>
                   if skb_hash h = skb_hash skb then Inr (unat b, q)
                   else
                     let q1 = q\<lparr>hashtable := (hashtable q)[hash1 := of_nat (get_next_empty_flow q + 1)]\<rparr>
                     in Inr (unat (hashtable q1 ! hash1), q1))
           else
             bindE (array_at (flows q) (uint a - 1)) (\<lambda>flow1.
               case queue flow1 of
                 [] \<Rightarrow> Inr (unat a, q)
               | h1 # _ \<Rightarrow>
                   bindE (array_at (flows q) (uint b - 1)) (\<lambda>flow2.
                     case queue flow2 of
                       [] \<Rightarrow> Inr (unat b, q)
                     | h2 # _ \<Rightarrow>
                         if skb_hash h1 = skb_hash skb then Inr (unat a, q)
                         else if skb_hash h2 = skb_hash skb then Inr (unat b, q)
                         else
                           let value_to_insert = get_next_empty_flow q + 1
                           in bindE (cuckoo_rehash q skb (int value_to_insert)) (\<lambda>q1.
                                Inr (value_to_insert, q1)))))))"

section \<open>Classification\<close>

definition NET_XMIT_SUCCESS :: int where "NET_XMIT_SUCCESS = 0"
definition NET_XMIT_CN :: int where "NET_XMIT_CN = 2"
definition NET_XMIT_STOLEN :: int where "NET_XMIT_STOLEN = 0x00010000"
definition NET_XMIT_BYPASS :: int where "NET_XMIT_BYPASS = 0x00020000"
definition TC_ACT_SHOT :: int where "TC_ACT_SHOT = 2"
definition TC_ACT_STOLEN :: int where "TC_ACT_STOLEN = 4"
definition TC_ACT_QUEUED :: int where "TC_ACT_QUEUED = 5"
definition TC_ACT_TRAP :: int where "TC_ACT_TRAP = 8"

text \<open>
  \<open>fq_codel_classify\<close> returns the class and what it wrote to \<open>*qerr\<close> (\<open>None\<close>: nothing
  written). The \<open>switch\<close> on the filter's verdict is the one compiled under
  \<open>CONFIG_NET_CLS_ACT\<close>. Only the internal classifier changes the scheduler data.
\<close>

definition fq_codel_classify ::
  "sk_buff \<Rightarrow> Qdisc \<Rightarrow> error + nat \<times> int option \<times> Qdisc" where
  "fq_codel_classify skb sch =
     (let q = priv sch in
      if TC_H_MAJ (priority skb) = handle sch \<and>
         TC_H_MIN (priority skb) > 0 \<and>
         TC_H_MIN (priority skb) \<le> flows_cnt q
      then Inr (unat (TC_H_MIN (priority skb)), None, sch)
      else
        case filter_list q of
          None \<Rightarrow>
            bindE (fq_codel_cuckoo_hash q skb) (\<lambda>(num, q1). Inr (num, None, sch\<lparr>priv := q1\<rparr>))
        | Some tp \<Rightarrow>
            let (result, classid) = tp skb in
            if result \<ge> 0 then
              if result = TC_ACT_STOLEN \<or> result = TC_ACT_QUEUED \<or> result = TC_ACT_TRAP
              then Inr (0, Some (NET_XMIT_SUCCESS OR NET_XMIT_STOLEN), sch)
              else if result = TC_ACT_SHOT
              then Inr (0, Some (NET_XMIT_SUCCESS OR NET_XMIT_BYPASS), sch)
              else if TC_H_MIN classid \<le> flows_cnt q
              then Inr (unat (TC_H_MIN classid), Some (NET_XMIT_SUCCESS OR NET_XMIT_BYPASS), sch)
              else Inr (0, Some (NET_XMIT_SUCCESS OR NET_XMIT_BYPASS), sch)
            else Inr (0, Some (NET_XMIT_SUCCESS OR NET_XMIT_BYPASS), sch))"

section \<open>Flow queues and the fat-flow drop\<close>

text \<open>\<open>dequeue_head\<close> reads \<open>skb->next\<close> of the head: on an empty queue it dereferences NULL.\<close>

definition dequeue_head :: "fq_codel_flow \<Rightarrow> error + sk_buff \<times> fq_codel_flow" where
  "dequeue_head flow =
     (case queue flow of [] \<Rightarrow> Inl NullDeref | skb # rest \<Rightarrow> Inr (skb, flow\<lparr>queue := rest\<rparr>))"

definition flow_queue_add :: "fq_codel_flow \<Rightarrow> sk_buff \<Rightarrow> fq_codel_flow" where
  "flow_queue_add flow skb = flow\<lparr>queue := queue flow @ [skb]\<rparr>"

text \<open>
  The linear scan of \<open>fq_codel_drop\<close> over \<open>backlogs[0..flows_cnt)\<close>: the list is what is
  left to scan, \<open>i\<close> the position of its first element.
\<close>

fun fat_flow_scan :: "u32 list \<Rightarrow> nat \<Rightarrow> u32 \<Rightarrow> nat \<Rightarrow> u32 \<times> nat" where
  "fat_flow_scan [] i maxbacklog idx = (maxbacklog, idx)"
| "fat_flow_scan (b # bs) i maxbacklog idx =
     (if b > maxbacklog then fat_flow_scan bs (Suc i) b i
      else fat_flow_scan bs (Suc i) maxbacklog idx)"

text \<open>
  The \<open>do \<dots> while (++i < max_packets && len < threshold)\<close> loop of \<open>fq_codel_drop\<close>, on
  the queue of the fat flow. It returns what is left of the queue, \<open>i\<close>, \<open>len\<close>, \<open>mem\<close> and
  the packets handed to \<open>__qdisc_drop\<close>, in the order they were dropped.
\<close>

fun drop_loop ::
  "sk_buff list \<Rightarrow> u32 \<Rightarrow> u32 \<Rightarrow> u32 \<Rightarrow> sk_buff list \<Rightarrow> u32 \<Rightarrow> u32
     \<Rightarrow> error + sk_buff list \<times> u32 \<times> u32 \<times> u32 \<times> sk_buff list" where
  "drop_loop [] i len mem to_free max_packets threshold = Inl NullDeref"
| "drop_loop (skb # rest) i len mem to_free max_packets threshold =
     (let len1 = len + pkt_len skb;
          mem1 = mem + mem_usage skb;
          to_free1 = to_free @ [skb];
          i1 = i + 1
      in if i1 < max_packets \<and> len1 < threshold
         then drop_loop rest i1 len1 mem1 to_free1 max_packets threshold
         else Inr (rest, i1, len1, mem1, to_free1))"

text \<open>\<open>fq_codel_drop\<close> returns the index of the fat flow and the dropped packets.\<close>

definition fq_codel_drop :: "Qdisc \<Rightarrow> u32 \<Rightarrow> error + nat \<times> sk_buff list \<times> Qdisc" where
  "fq_codel_drop sch max_packets =
     (let q = priv sch;
          n = unat (flows_cnt q)
      in if length (backlogs q) < n then Inl (OutOfBounds (int (length (backlogs q))))
         else
           let (maxbacklog, idx) = fat_flow_scan (take n (backlogs q)) 0 0 0;
               threshold = drop_bit 1 maxbacklog
           in bindE (array_at (flows q) (int idx)) (\<lambda>flow.
              bindE (drop_loop (queue flow) 0 0 0 [] max_packets threshold)
                (\<lambda>(rest, i, len, mem, to_free).
              bindE (array_at (backlogs q) (int idx)) (\<lambda>b.
                let flow1 = flow\<lparr>queue := rest, dropped := dropped flow + i\<rparr>;
                    q1 = q\<lparr>flows := (flows q)[idx := flow1],
                           backlogs := (backlogs q)[idx := b - len],
                           memory_usage := memory_usage q - mem\<rparr>
                in Inr (idx, to_free,
                        sch\<lparr>qstats_drops := qstats_drops sch + i,
                            qstats_backlog := qstats_backlog sch - len,
                            qlen := qlen sch - i,
                            priv := q1\<rparr>)))))"

section \<open>Enqueue\<close>

text \<open>
  \<open>list_empty(&flow->flowchain)\<close>: the flow is on neither scheduling list.
\<close>

definition flowchain_empty :: "fq_codel_sched_data \<Rightarrow> nat \<Rightarrow> bool" where
  "flowchain_empty q idx = (idx \<notin> set (new_flows q) \<and> idx \<notin> set (old_flows q))"

text \<open>
  \<open>fq_codel_enqueue\<close> returns its return code (\<open>None\<close> where the C code returns the
  variable \<open>ret\<close> that nothing has written), the packets put on \<open>to_free\<close>, and the new
  state. The calls of \<open>qdisc_tree_reduce_backlog\<close> act on the parent qdiscs only.
\<close>

definition fq_codel_enqueue ::
  "sk_buff \<Rightarrow> Qdisc \<Rightarrow> error + int option \<times> sk_buff list \<times> Qdisc" where
  "fq_codel_enqueue skb sch =
     bindE (fq_codel_classify skb sch) (\<lambda>(cls, ret, sch0).
       if cls = 0 then
         (case ret of
            None \<Rightarrow> Inr (None, [skb], sch0)
          | Some r \<Rightarrow>
              if r AND NET_XMIT_BYPASS \<noteq> 0
              then Inr (Some r, [skb], sch0\<lparr>qstats_drops := qstats_drops sch0 + 1\<rparr>)
              else Inr (Some r, [skb], sch0))
       else
         let idx = cls - 1;
             q = priv sch0
         in bindE (array_at (flows q) (int idx)) (\<lambda>flow.
            bindE (array_at (backlogs q) (int idx)) (\<lambda>b.
            let skb1 = skb\<lparr>mem_usage := truesize skb\<rparr>;
                q1 = q\<lparr>flows := (flows q)[idx := flow_queue_add flow skb1],
                       backlogs := (backlogs q)[idx := b + pkt_len skb]\<rparr>;
                sch1 = sch0\<lparr>qstats_backlog := qstats_backlog sch0 + pkt_len skb\<rparr>
            in bindE (mark_flow_as_non_empty q1 idx) (\<lambda>q2.
               let q3 = (if flowchain_empty q2 idx
                         then q2\<lparr>new_flows := new_flows q2 @ [idx],
                                 new_flow_count := new_flow_count q2 + 1,
                                 flows := (flows q2)[idx := (flows q2 ! idx)\<lparr>deficit := quantum q2, dropped := 0\<rparr>]\<rparr>
                         else q2);
                   q4 = q3\<lparr>memory_usage := memory_usage q3 + mem_usage skb1\<rparr>;
                   memory_limited = (memory_usage q4 > memory_limit q4);
                   sch2 = sch1\<lparr>qlen := qlen sch1 + 1, priv := q4\<rparr>
               in if qlen sch2 \<le> limit sch2 \<and> \<not> memory_limited
                  then Inr (Some NET_XMIT_SUCCESS, [], sch2)
                  else
                    bindE (fq_codel_drop sch2 (drop_batch_size q4)) (\<lambda>(ret1, to_free, sch3).
                      let prev_qlen = qlen sch2 - qlen sch3;
                          q5 = priv sch3;
                          q6 = q5\<lparr>drop_overlimit := drop_overlimit q5 + prev_qlen\<rparr>;
                          q7 = (if memory_limited
                                then q6\<lparr>drop_overmemory := drop_overmemory q6 + prev_qlen\<rparr>
                                else q6);
                          sch4 = sch3\<lparr>priv := q7\<rparr>
                      in if ret1 = idx
                         then Inr (Some NET_XMIT_CN, to_free, sch4)
                         else Inr (Some NET_XMIT_SUCCESS, to_free, sch4))))))"

section \<open>Dequeue\<close>

definition dequeue_func :: "Qdisc \<Rightarrow> nat \<Rightarrow> error + sk_buff option \<times> Qdisc" where
  "dequeue_func sch idx =
     (let q = priv sch
      in bindE (array_at (flows q) (int idx)) (\<lambda>flow.
           case queue flow of
             [] \<Rightarrow> Inr (None, sch)
           | skb # rest \<Rightarrow>
               bindE (array_at (backlogs q) (int idx)) (\<lambda>b.
                 Inr (Some skb,
                      sch\<lparr>qlen := qlen sch - 1,
                          qstats_backlog := qstats_backlog sch - pkt_len skb,
                          priv := q\<lparr>flows := (flows q)[idx := flow\<lparr>queue := rest\<rparr>],
                                    backlogs := (backlogs q)[idx := b - pkt_len skb],
                                    memory_usage := memory_usage q - mem_usage skb\<rparr>\<rparr>))))"

definition drop_func :: "sk_buff \<Rightarrow> Qdisc \<Rightarrow> Qdisc" where
  "drop_func skb sch = sch\<lparr>qstats_drops := qstats_drops sch + 1\<rparr>"

text \<open>
  Modelled from the spec: \<open>codel_dequeue\<close> (net/codel\_impl.h) is not part of the file.
  The spec gives its contract: it returns a packet or NONE; packets it drops leave the
  flow through the supplied accessors (\<open>dequeue_func\<close>, \<open>drop_func\<close>), which apply the
  backlog decrement; when the flow queue empties it returns NONE. How many head packets
  it drops and how many it ECN-marks is decided by sojourn times, which are not
  modelled: the decision is the parameter \<open>cd\<close>, a function of the flow's queue.
\<close>

type_synonym codel_engine = "sk_buff list \<Rightarrow> nat \<times> u32"

fun codel_drop_heads :: "nat \<Rightarrow> Qdisc \<Rightarrow> nat \<Rightarrow> error + Qdisc" where
  "codel_drop_heads 0 sch idx = Inr sch"
| "codel_drop_heads (Suc k) sch idx =
     bindE (dequeue_func sch idx) (\<lambda>(r, sch1).
       case r of
         None \<Rightarrow> Inr sch1
       | Some skb \<Rightarrow>
           let q1 = priv sch1;
               st = cstats q1;
               q2 = q1\<lparr>cstats := st\<lparr>drop_len := drop_len st + pkt_len skb,
                                     drop_count := drop_count st + 1\<rparr>\<rparr>
           in codel_drop_heads k (drop_func skb (sch1\<lparr>priv := q2\<rparr>)) idx)"

definition codel_dequeue :: "codel_engine \<Rightarrow> Qdisc \<Rightarrow> nat \<Rightarrow> error + sk_buff option \<times> Qdisc" where
  "codel_dequeue cd sch idx =
     bindE (array_at (flows (priv sch)) (int idx)) (\<lambda>flow.
       let (k, marks) = cd (queue flow)
       in bindE (codel_drop_heads k sch idx) (\<lambda>sch1.
          bindE (dequeue_func sch1 idx) (\<lambda>(r, sch2).
            let q2 = priv sch2;
                st = cstats q2
            in Inr (r, sch2\<lparr>priv := q2\<lparr>cstats := st\<lparr>ecn_mark := ecn_mark st + marks\<rparr>\<rparr>\<rparr>))))"

text \<open>
  The end of \<open>fq_codel_dequeue\<close>, from \<open>qdisc_bstats_update\<close> on: a packet \<open>skb\<close> has come
  out of flow \<open>idx\<close>. When the flow is left without a head, the slot is marked empty and
  each of the two buckets of \<open>skb\<close> is cleared if it holds \<open>idx + 1\<close>:
  \<open>clear_bucket q h v\<close> is the statement \<open>if (q->hashtable[h] == v) q->hashtable[h] = 0\<close>.
\<close>

definition clear_bucket :: "fq_codel_sched_data \<Rightarrow> nat \<Rightarrow> int \<Rightarrow> error + fq_codel_sched_data" where
  "clear_bucket q h v =
     bindE (array_at (hashtable q) (int h)) (\<lambda>a.
       if uint a = v then Inr (q\<lparr>hashtable := (hashtable q)[h := 0]\<rparr>) else Inr q)"

definition fq_codel_dequeue_tail :: "Qdisc \<Rightarrow> nat \<Rightarrow> sk_buff \<Rightarrow> error + sk_buff option \<times> Qdisc" where
  "fq_codel_dequeue_tail sch idx skb =
     (let q = priv sch;
          sch1 = sch\<lparr>bstats_bytes := bstats_bytes sch + ucast (pkt_len skb),
                     bstats_packets := bstats_packets sch + 1\<rparr>
      in bindE (array_at (flows q) (int idx)) (\<lambda>flow.
         let q1 = q\<lparr>flows := (flows q)[idx := flow\<lparr>deficit := deficit flow - pkt_len skb\<rparr>]\<rparr>;
             q2 = (if drop_count (cstats q1) \<noteq> 0 \<and> qlen sch1 \<noteq> 0
                   then q1\<lparr>cstats := (cstats q1)\<lparr>drop_count := 0, drop_len := 0\<rparr>\<rparr>
                   else q1)
         in if queue flow = [] then
              let empty_id = idx
              in bindE (mark_flow_as_empty q2 empty_id) (\<lambda>q3.
                 let h1 = fq_codel_hash_modified q3 skb 0;
                     h2 = fq_codel_hash_modified q3 skb 1
                 in bindE (clear_bucket q3 h1 (int empty_id + 1)) (\<lambda>q4.
                    bindE (clear_bucket q4 h2 (int empty_id + 1)) (\<lambda>q5.
                      Inr (Some skb, sch1\<lparr>priv := q5\<rparr>))))
            else Inr (Some skb, sch1\<lparr>priv := q2\<rparr>)))"

text \<open>
  \<open>list_move_tail(&flow->flowchain, &q->old_flows)\<close> and \<open>list_del_init\<close>, for the flow at
  the head of the list it was selected from.
\<close>

definition list_move_tail_old :: "fq_codel_sched_data \<Rightarrow> bool \<Rightarrow> nat \<Rightarrow> fq_codel_sched_data" where
  "list_move_tail_old q from_new idx =
     (if from_new then q\<lparr>new_flows := tl (new_flows q), old_flows := old_flows q @ [idx]\<rparr>
      else q\<lparr>old_flows := tl (old_flows q) @ [idx]\<rparr>)"

definition list_del_init :: "fq_codel_sched_data \<Rightarrow> bool \<Rightarrow> fq_codel_sched_data" where
  "list_del_init q from_new =
     (if from_new then q\<lparr>new_flows := tl (new_flows q)\<rparr> else q\<lparr>old_flows := tl (old_flows q)\<rparr>)"

text \<open>
  \<open>fq_codel_dequeue\<close>. Each pass from the label \<open>begin\<close> uses one unit of the first
  argument; \<open>None\<close> is a run that has not returned within it.
\<close>

fun fq_codel_dequeue ::
  "nat \<Rightarrow> codel_engine \<Rightarrow> Qdisc \<Rightarrow> (error + sk_buff option \<times> Qdisc) option" where
  "fq_codel_dequeue 0 cd sch = None"
| "fq_codel_dequeue (Suc fuel) cd sch =
     (let q = priv sch
      in if new_flows q = [] \<and> old_flows q = [] then Some (Inr (None, sch))
         else
           let from_new = (new_flows q \<noteq> []);
               idx = (if from_new then hd (new_flows q) else hd (old_flows q))
           in case array_at (flows q) (int idx) of
                Inl e \<Rightarrow> Some (Inl e)
              | Inr flow \<Rightarrow>
                  if deficit flow \<le>s 0 then
                    fq_codel_dequeue fuel cd
                      (sch\<lparr>priv := list_move_tail_old
                                     (q\<lparr>flows := (flows q)[idx := flow\<lparr>deficit := deficit flow + quantum q\<rparr>]\<rparr>)
                                     from_new idx\<rparr>)
                  else
                    (case codel_dequeue cd sch idx of
                       Inl e \<Rightarrow> Some (Inl e)
                     | Inr (r, sch1) \<Rightarrow>
                         let q1 = priv sch1;
                             d = (drop_count (cstats q1) - drop_count (cstats q))
                                   + (ecn_mark (cstats q1) - ecn_mark (cstats q));
                             q2 = q1\<lparr>flows := (flows q1)
                                          [idx := (flows q1 ! idx)\<lparr>dropped := dropped (flows q1 ! idx) + d\<rparr>]\<rparr>
                         in (case r of
                               None \<Rightarrow>
                                 fq_codel_dequeue fuel cd
                                   (sch1\<lparr>priv := (if from_new \<and> old_flows q2 \<noteq> []
                                                   then list_move_tail_old q2 from_new idx
                                                   else list_del_init q2 from_new)\<rparr>)
                             | Some skb \<Rightarrow> Some (fq_codel_dequeue_tail (sch1\<lparr>priv := q2\<rparr>) idx skb))))"

text \<open>
  The flow a pass of \<open>fq_codel_dequeue\<close> selects: the first entry of \<open>new_flows\<close>, or of
  \<open>old_flows\<close> when \<open>new_flows\<close> is empty. A dequeue that returns a packet leaves both lists
  as they were when the packet was taken, so in the state it returns this is the slot the
  packet has come out of.
\<close>

definition selected_flow :: "fq_codel_sched_data \<Rightarrow> nat" where
  "selected_flow q = (if new_flows q \<noteq> [] then hd (new_flows q) else hd (old_flows q))"

text \<open>
  What the passes of \<open>fq_codel_dequeue\<close> before its end leave alone: the cuckoo table, its
  seeds and its size are unchanged, and every flow queue holds only packets it held before.
\<close>

definition queues_shrink :: "fq_codel_sched_data \<Rightarrow> fq_codel_sched_data \<Rightarrow> bool" where
  "queues_shrink q q' =
     (hashtable q' = hashtable q \<and> flows_cnt q' = flows_cnt q \<and> random_seed q' = random_seed q
      \<and> length (flows q') = length (flows q)
      \<and> (\<forall>j < length (flows q). set (queue (flows q' ! j)) \<subseteq> set (queue (flows q ! j))))"

section \<open>Configuration and initialisation\<close>

text \<open>
  The parsed attribute table \<open>tb[]\<close> of \<open>fq_codel_change\<close>: an attribute that is absent is
  \<open>None\<close>.
\<close>

record tca_fq_codel =
  TCA_FQ_CODEL_TARGET :: "u32 option"
  TCA_FQ_CODEL_LIMIT :: "u32 option"
  TCA_FQ_CODEL_INTERVAL :: "u32 option"
  TCA_FQ_CODEL_ECN :: "u32 option"
  TCA_FQ_CODEL_FLOWS :: "u32 option"
  TCA_FQ_CODEL_QUANTUM :: "u32 option"
  TCA_FQ_CODEL_CE_THRESHOLD :: "u32 option"
  TCA_FQ_CODEL_DROP_BATCH_SIZE :: "u32 option"
  TCA_FQ_CODEL_MEMORY_LIMIT :: "u32 option"

text \<open>\<open>(x * NSEC_PER_USEC) >> CODEL_SHIFT\<close>, computed in 64 bits and stored in 32.\<close>

definition us_to_codel_time :: "u32 \<Rightarrow> u32" where
  "us_to_codel_time x = ucast (drop_bit 10 ((ucast x :: 64 word) * 1000))"

definition over_limits :: "Qdisc \<Rightarrow> bool" where
  "over_limits sch = (qlen sch > limit sch \<or> memory_usage (priv sch) > memory_limit (priv sch))"

text \<open>
  The \<open>while\<close> loop at the end of \<open>fq_codel_change\<close>; \<open>qdisc_pkt_len(skb)\<close> on a NULL
  result of \<open>fq_codel_dequeue\<close> is a NULL dereference.
\<close>

fun fq_codel_change_trim :: "nat \<Rightarrow> codel_engine \<Rightarrow> Qdisc \<Rightarrow> (error + Qdisc) option" where
  "fq_codel_change_trim 0 cd sch = (if over_limits sch then None else Some (Inr sch))"
| "fq_codel_change_trim (Suc fuel) cd sch =
     (if over_limits sch then
        (case fq_codel_dequeue (Suc fuel) cd sch of
           None \<Rightarrow> None
         | Some (Inl e) \<Rightarrow> Some (Inl e)
         | Some (Inr (None, sch1)) \<Rightarrow> Some (Inl NullDeref)
         | Some (Inr (Some skb, sch1)) \<Rightarrow>
             let q1 = priv sch1;
                 st = cstats q1
             in fq_codel_change_trim fuel cd
                  (sch1\<lparr>priv := q1\<lparr>cstats := st\<lparr>drop_len := drop_len st + pkt_len skb,
                                                  drop_count := drop_count st + 1\<rparr>\<rparr>\<rparr>))
      else Some (Inr sch))"

definition fq_codel_change ::
  "nat \<Rightarrow> codel_engine \<Rightarrow> Qdisc \<Rightarrow> tca_fq_codel option \<Rightarrow> (error + Qdisc) option" where
  "fq_codel_change fuel cd sch opt =
     (case opt of
        None \<Rightarrow> Some (Inl EINVAL)
      | Some tb \<Rightarrow>
          let q = priv sch
          in if TCA_FQ_CODEL_FLOWS tb \<noteq> None \<and> flows q \<noteq> [] then Some (Inl EINVAL)
             else
               let q1 = (case TCA_FQ_CODEL_FLOWS tb of None \<Rightarrow> q | Some n \<Rightarrow> q\<lparr>flows_cnt := n\<rparr>)
               in if TCA_FQ_CODEL_FLOWS tb \<noteq> None \<and> (flows_cnt q1 = 0 \<or> flows_cnt q1 > 65536)
                  then Some (Inl EINVAL)
                  else
                    let p1 = cparams q1;
                        p2 = (case TCA_FQ_CODEL_TARGET tb of
                                None \<Rightarrow> p1 | Some v \<Rightarrow> p1\<lparr>target := us_to_codel_time v\<rparr>);
                        p3 = (case TCA_FQ_CODEL_CE_THRESHOLD tb of
                                None \<Rightarrow> p2 | Some v \<Rightarrow> p2\<lparr>ce_threshold := us_to_codel_time v\<rparr>);
                        p4 = (case TCA_FQ_CODEL_INTERVAL tb of
                                None \<Rightarrow> p3 | Some v \<Rightarrow> p3\<lparr>interval := us_to_codel_time v\<rparr>);
                        sch1 = (case TCA_FQ_CODEL_LIMIT tb of
                                  None \<Rightarrow> sch | Some v \<Rightarrow> sch\<lparr>limit := v\<rparr>);
                        p5 = (case TCA_FQ_CODEL_ECN tb of
                                None \<Rightarrow> p4 | Some v \<Rightarrow> p4\<lparr>ecn := (v \<noteq> 0)\<rparr>);
                        q2 = q1\<lparr>cparams := p5\<rparr>;
                        q3 = (case TCA_FQ_CODEL_QUANTUM tb of
                                None \<Rightarrow> q2 | Some v \<Rightarrow> q2\<lparr>quantum := max 256 v\<rparr>);
                        q4 = (case TCA_FQ_CODEL_DROP_BATCH_SIZE tb of
                                None \<Rightarrow> q3 | Some v \<Rightarrow> q3\<lparr>drop_batch_size := min 1 v\<rparr>);
                        q5 = (case TCA_FQ_CODEL_MEMORY_LIMIT tb of
                                None \<Rightarrow> q4 | Some v \<Rightarrow> q4\<lparr>memory_limit := min (push_bit 31 1) v\<rparr>)
                    in (case fq_codel_change_trim fuel cd (sch1\<lparr>priv := q5\<rparr>) of
                          None \<Rightarrow> None
                        | Some (Inl e) \<Rightarrow> Some (Inl e)
                        | Some (Inr sch2) \<Rightarrow>
                            let q6 = priv sch2
                            in Some (Inr (sch2\<lparr>priv := q6\<lparr>cstats := (cstats q6)\<lparr>drop_count := 0,
                                                                              drop_len := 0\<rparr>\<rparr>\<rparr>))))"

text \<open>
  \<open>fq_codel_init\<close> on the zero-filled private area the kernel hands over (\<open>q->flows\<close> is
  NULL: the list \<open>flows\<close> is empty). \<open>dev_mtu\<close> is \<open>psched_mtu(qdisc_dev(sch))\<close>, \<open>params0\<close>
  what \<open>codel_params_init\<close> sets, \<open>seed0\<close> and \<open>seed1\<close> the two values of
  \<open>get_random_u32()\<close>. The allocations are taken to succeed and \<open>tcf_block_get\<close> to return
  0 leaving \<open>filter_list\<close> as it is.
\<close>

definition fq_codel_init ::
  "nat \<Rightarrow> codel_engine \<Rightarrow> Qdisc \<Rightarrow> tca_fq_codel option \<Rightarrow> u32 \<Rightarrow> codel_params \<Rightarrow> u32 \<Rightarrow> u32
     \<Rightarrow> (error + Qdisc) option" where
  "fq_codel_init fuel cd sch opt dev_mtu params0 seed0 seed1 =
     (let q = priv sch;
          q1 = q\<lparr>flows_cnt := 1024,
                 memory_limit := push_bit 20 32,
                 drop_batch_size := 64,
                 quantum := dev_mtu,
                 new_flows := [],
                 old_flows := [],
                 cparams := params0\<lparr>ecn := True, mtu := dev_mtu\<rparr>,
                 cstats := \<lparr>drop_count = 0, drop_len = 0, ecn_mark = 0\<rparr>\<rparr>;
          sch1 = sch\<lparr>limit := 10 * 1024, priv := q1\<rparr>
      in case (case opt of None \<Rightarrow> Some (Inr sch1) | Some tb \<Rightarrow> fq_codel_change fuel cd sch1 opt) of
           None \<Rightarrow> None
         | Some (Inl e) \<Rightarrow> Some (Inl e)
         | Some (Inr sch2) \<Rightarrow>
             let q2 = priv sch2;
                 n = unat (flows_cnt q2)
             in if flows q2 = [] then
                  Some (Inr (sch2\<lparr>priv := q2
                    \<lparr>flows := replicate n \<lparr>queue = [], deficit = 0, dropped = 0\<rparr>,
                     backlogs := replicate n 0,
                     hashtable := replicate (2 * n) 0,
                     random_seed := [seed0, seed1],
                     empty_flow_mask := memset_words (replicate 32 0) (memset_u32 1) 32,
                     flow_mask_index := memset_u32 1\<rparr>\<rparr>))
                else Some (Inr sch2))"

section \<open>Reset\<close>

definition fq_codel_flow_purge :: "fq_codel_flow \<Rightarrow> fq_codel_flow" where
  "fq_codel_flow_purge flow = flow\<lparr>queue := []\<rparr>"

definition fq_codel_reset :: "Qdisc \<Rightarrow> Qdisc" where
  "fq_codel_reset sch =
     (let q = priv sch;
          n = unat (flows_cnt q);
          q1 = q\<lparr>new_flows := [], old_flows := [],
                 flows := map fq_codel_flow_purge (take n (flows q)) @ drop n (flows q),
                 backlogs := memset_words (backlogs q) 0 n,
                 hashtable := memset_words (hashtable q) (memset_u16 0) (2 * n),
                 empty_flow_mask := memset_words (empty_flow_mask q) (memset_u32 1) 32,
                 flow_mask_index := memset_u32 1,
                 memory_usage := 0\<rparr>
      in sch\<lparr>qlen := 0, qstats_backlog := 0, priv := q1\<rparr>)"

text \<open>
  The invariant of the two-level bitmask, in the bit order of the code: group \<open>g\<close> is bit
  \<open>31 - g\<close> of \<open>flow_mask_index\<close>, and slot \<open>32 * g + b\<close> is bit \<open>31 - b\<close> of
  \<open>empty_flow_mask[g]\<close>.
\<close>

definition mask_index_inv :: "fq_codel_sched_data \<Rightarrow> bool" where
  "mask_index_inv q =
     list_all (\<lambda>g. bit (flow_mask_index q) (31 - g) = (empty_flow_mask q ! g \<noteq> 0)) [0..<32]"

definition slot_marked_empty :: "fq_codel_sched_data \<Rightarrow> nat \<Rightarrow> bool" where
  "slot_marked_empty q i = bit (empty_flow_mask q ! (i div 32)) (31 - i mod 32)"

section \<open>Concrete states and packets\<close>

text \<open>
  The zero-filled scheduler the kernel hands to \<open>fq_codel_init\<close>, with handle \<open>1:0\<close>; the
  parameters \<open>codel_params_init\<close> sets (5 ms target, 100 ms interval, no CE threshold); a
  CoDel engine that neither drops nor marks.
\<close>

definition priv_zero :: fq_codel_sched_data where
  "priv_zero = \<lparr>filter_list = None, hashtable = [], random_seed = [], empty_flow_mask = [],
     flow_mask_index = 0, flows = [], backlogs = [], flows_cnt = 0, quantum = 0,
     drop_batch_size = 0, memory_limit = 0,
     cparams = \<lparr>target = 0, ce_threshold = 0, interval = 0, ecn = False, mtu = 0\<rparr>,
     cstats = \<lparr>drop_count = 0, drop_len = 0, ecn_mark = 0\<rparr>,
     memory_usage = 0, drop_overmemory = 0, drop_overlimit = 0, new_flow_count = 0,
     new_flows = [], old_flows = []\<rparr>"

definition qdisc_zero :: Qdisc where
  "qdisc_zero = \<lparr>handle = 0x10000, limit = 0, qlen = 0, qstats_backlog = 0, qstats_drops = 0,
     bstats_bytes = 0, bstats_packets = 0, priv = priv_zero\<rparr>"

definition params0 :: codel_params where
  "params0 = \<lparr>target = 4882, ce_threshold = 0x7FFFFFFF, interval = 97656, ecn = False, mtu = 0\<rparr>"

definition no_drops :: codel_engine where
  "no_drops = (\<lambda>_. (0, 0))"

text \<open>The state after \<open>fq_codel_init\<close> without options: 1024 flows, seeds 7 and 11.\<close>

definition sch_default :: Qdisc where
  "sch_default = qdisc_zero\<lparr>limit := 10240,
     priv := priv_zero\<lparr>hashtable := replicate 2048 0, random_seed := [7, 11],
       empty_flow_mask := replicate 32 0x01010101, flow_mask_index := 0x01010101,
       flows := replicate 1024 \<lparr>queue = [], deficit = 0, dropped = 0\<rparr>,
       backlogs := replicate 1024 0, flows_cnt := 1024, quantum := 1514, drop_batch_size := 64,
       memory_limit := 0x2000000, cparams := params0\<lparr>ecn := True, mtu := 1514\<rparr>\<rparr>\<rparr>"

text \<open>The same scheduler with every slot marked occupied, and with slot 0 alone marked empty.\<close>

definition sch_full :: Qdisc where
  "sch_full = sch_default\<lparr>priv := (priv sch_default)
     \<lparr>empty_flow_mask := replicate 32 0, flow_mask_index := 0\<rparr>\<rparr>"

definition sch_slot0_free :: Qdisc where
  "sch_slot0_free = sch_default\<lparr>priv := (priv sch_default)
     \<lparr>empty_flow_mask := (replicate 32 0)[0 := 0x80000000], flow_mask_index := 0x80000000\<rparr>\<rparr>"

text \<open>
  Packets. \<open>pkt_b\<close>, \<open>pkt_c\<close> and \<open>pkt_a\<close> belong to three flows (three flow hashes) whose
  perturbed hashes are 0 under every seed: all three fall into bucket 0 of each
  sub-table. \<open>pkt_p\<close> carries the priority \<open>1:1024\<close> and perturbed hashes that fall into the
  last bucket of each sub-table of 1024.
\<close>

definition pkt_b :: sk_buff where
  "pkt_b = \<lparr>skb_hash = 1, skb_hash_perturb = (\<lambda>_. 0), priority = 0, pkt_len = 100,
     truesize = 256, mem_usage = 0\<rparr>"

definition pkt_c :: sk_buff where
  "pkt_c = \<lparr>skb_hash = 2, skb_hash_perturb = (\<lambda>_. 0), priority = 0, pkt_len = 100,
     truesize = 256, mem_usage = 0\<rparr>"

definition pkt_a :: sk_buff where
  "pkt_a = \<lparr>skb_hash = 3, skb_hash_perturb = (\<lambda>_. 0), priority = 0, pkt_len = 100,
     truesize = 256, mem_usage = 0\<rparr>"

definition pkt_p :: sk_buff where
  "pkt_p = \<lparr>skb_hash = 4, skb_hash_perturb = (\<lambda>_. 0xFFFFFFFF), priority = 0x00010400,
     pkt_len = 100, truesize = 256, mem_usage = 0\<rparr>"

text \<open>An attribute table without attributes, and the state after \<open>fq_codel_init\<close> with \<open>FLOWS = 4\<close>.\<close>

definition tb_none :: tca_fq_codel where
  "tb_none = \<lparr>TCA_FQ_CODEL_TARGET = None, TCA_FQ_CODEL_LIMIT = None, TCA_FQ_CODEL_INTERVAL = None,
     TCA_FQ_CODEL_ECN = None, TCA_FQ_CODEL_FLOWS = None, TCA_FQ_CODEL_QUANTUM = None,
     TCA_FQ_CODEL_CE_THRESHOLD = None, TCA_FQ_CODEL_DROP_BATCH_SIZE = None,
     TCA_FQ_CODEL_MEMORY_LIMIT = None\<rparr>"

definition sch_flows4 :: Qdisc where
  "sch_flows4 = qdisc_zero\<lparr>limit := 10240,
     priv := priv_zero\<lparr>hashtable := replicate 8 0, random_seed := [7, 11],
       empty_flow_mask := replicate 32 0x01010101, flow_mask_index := 0x01010101,
       flows := replicate 4 \<lparr>queue = [], deficit = 0, dropped = 0\<rparr>,
       backlogs := replicate 4 0, flows_cnt := 4, quantum := 1514, drop_batch_size := 64,
       memory_limit := 0x2000000, cparams := params0\<lparr>ecn := True, mtu := 1514\<rparr>\<rparr>\<rparr>"

text \<open>
  The default scheduler after the enqueue of \<open>pkt_b\<close> (\<open>sch_b\<close>), and after the enqueue of
  \<open>pkt_b\<close> and then \<open>pkt_c\<close> (\<open>sch_c\<close>).
\<close>

definition sch_b :: Qdisc where
  "sch_b = sch_default\<lparr>qlen := 1, qstats_backlog := 100,
     priv := (priv sch_default)\<lparr>hashtable := (replicate 2048 0)[0 := 1024],
       empty_flow_mask := (replicate 32 0x01010101)[31 := 0x01010100],
       flows := (replicate 1024 \<lparr>queue = [], deficit = 0, dropped = 0\<rparr>)
                  [1023 := \<lparr>queue = [pkt_b\<lparr>mem_usage := 256\<rparr>], deficit = 1514, dropped = 0\<rparr>],
       backlogs := (replicate 1024 0)[1023 := 100],
       memory_usage := 256, new_flow_count := 1, new_flows := [1023]\<rparr>\<rparr>"

definition sch_c :: Qdisc where
  "sch_c = sch_default\<lparr>qlen := 2, qstats_backlog := 200,
     priv := (priv sch_default)\<lparr>hashtable := (replicate 2048 0)[0 := 1024, 1024 := 1016],
       empty_flow_mask := (replicate 32 0x01010101)[31 := 0x01010000],
       flows := (replicate 1024 \<lparr>queue = [], deficit = 0, dropped = 0\<rparr>)
                  [1023 := \<lparr>queue = [pkt_b\<lparr>mem_usage := 256\<rparr>], deficit = 1514, dropped = 0\<rparr>,
                   1015 := \<lparr>queue = [pkt_c\<lparr>mem_usage := 256\<rparr>], deficit = 1514, dropped = 0\<rparr>],
       backlogs := (replicate 1024 0)[1023 := 100, 1015 := 100],
       memory_usage := 512, new_flow_count := 2, new_flows := [1023, 1015]\<rparr>\<rparr>"

text \<open>
  The default scheduler after the enqueues of \<open>pkt_b\<close> and \<open>pkt_p\<close> (\<open>sch_bp\<close>), after the
  dequeue that follows (\<open>sch_p\<close>), and after a second dequeue (\<open>sch_drained\<close>).
\<close>

definition sch_bp :: Qdisc where
  "sch_bp = sch_default\<lparr>qlen := 2, qstats_backlog := 200,
     priv := (priv sch_default)\<lparr>hashtable := (replicate 2048 0)[0 := 1024],
       empty_flow_mask := (replicate 32 0x01010101)[31 := 0x01010100],
       flows := (replicate 1024 \<lparr>queue = [], deficit = 0, dropped = 0\<rparr>)
                  [1023 := \<lparr>queue = [pkt_b\<lparr>mem_usage := 256\<rparr>, pkt_p\<lparr>mem_usage := 256\<rparr>],
                             deficit = 1514, dropped = 0\<rparr>],
       backlogs := (replicate 1024 0)[1023 := 200],
       memory_usage := 512, new_flow_count := 1, new_flows := [1023]\<rparr>\<rparr>"

definition sch_p :: Qdisc where
  "sch_p = sch_default\<lparr>qlen := 1, qstats_backlog := 100, bstats_bytes := 100, bstats_packets := 1,
     priv := (priv sch_default)\<lparr>hashtable := (replicate 2048 0)[0 := 1024],
       empty_flow_mask := (replicate 32 0x01010101)[31 := 0x01010100],
       flows := (replicate 1024 \<lparr>queue = [], deficit = 0, dropped = 0\<rparr>)
                  [1023 := \<lparr>queue = [pkt_p\<lparr>mem_usage := 256\<rparr>], deficit = 1414, dropped = 0\<rparr>],
       backlogs := (replicate 1024 0)[1023 := 100],
       memory_usage := 256, new_flow_count := 1, new_flows := [1023]\<rparr>\<rparr>"

definition sch_drained :: Qdisc where
  "sch_drained = sch_default\<lparr>qlen := 0, qstats_backlog := 0, bstats_bytes := 200, bstats_packets := 2,
     priv := (priv sch_default)\<lparr>hashtable := (replicate 2048 0)[0 := 1024],
       empty_flow_mask := (replicate 32 0x01010101)[31 := 0x01010101],
       flows := (replicate 1024 \<lparr>queue = [], deficit = 0, dropped = 0\<rparr>)
                  [1023 := \<lparr>queue = [], deficit = 1314, dropped = 0\<rparr>],
       backlogs := (replicate 1024 0)[1023 := 0],
       memory_usage := 0, new_flow_count := 1, new_flows := [1023]\<rparr>\<rparr>"

text \<open>
  A scheduler of four flows with a packet limit of 2 (\<open>sch_limit2\<close>), and three packets
  classified by their priority: \<open>pkt_s1\<close> (100 bytes) and \<open>pkt_s2\<close> (101 bytes) to slot 0,
  \<open>pkt_t\<close> (50 bytes) to slot 1. \<open>sch_s1\<close> and \<open>sch_s12\<close> are the states after the enqueue of
  \<open>pkt_s1\<close> and then of \<open>pkt_s2\<close>; \<open>sch_s2t\<close> is the state after the enqueue of \<open>pkt_t\<close>, which
  exceeds the limit.
\<close>

definition pkt_s1 :: sk_buff where
  "pkt_s1 = \<lparr>skb_hash = 5, skb_hash_perturb = (\<lambda>_. 0), priority = 0x00010001, pkt_len = 100,
     truesize = 256, mem_usage = 0\<rparr>"

definition pkt_s2 :: sk_buff where
  "pkt_s2 = \<lparr>skb_hash = 5, skb_hash_perturb = (\<lambda>_. 0), priority = 0x00010001, pkt_len = 101,
     truesize = 256, mem_usage = 0\<rparr>"

definition pkt_t :: sk_buff where
  "pkt_t = \<lparr>skb_hash = 6, skb_hash_perturb = (\<lambda>_. 0), priority = 0x00010002, pkt_len = 50,
     truesize = 256, mem_usage = 0\<rparr>"

definition sch_limit2 :: Qdisc where
  "sch_limit2 = sch_flows4\<lparr>limit := 2\<rparr>"

definition sch_s1 :: Qdisc where
  "sch_s1 = sch_limit2\<lparr>qlen := 1, qstats_backlog := 100,
     priv := (priv sch_limit2)\<lparr>
       flows := (replicate 4 \<lparr>queue = [], deficit = 0, dropped = 0\<rparr>)
                  [0 := \<lparr>queue = [pkt_s1\<lparr>mem_usage := 256\<rparr>], deficit = 1514, dropped = 0\<rparr>],
       backlogs := (replicate 4 0)[0 := 100],
       empty_flow_mask := (replicate 32 0x01010101)[0 := 0x01010101],
       memory_usage := 256, new_flow_count := 1, new_flows := [0]\<rparr>\<rparr>"

definition sch_s12 :: Qdisc where
  "sch_s12 = sch_limit2\<lparr>qlen := 2, qstats_backlog := 201,
     priv := (priv sch_limit2)\<lparr>
       flows := (replicate 4 \<lparr>queue = [], deficit = 0, dropped = 0\<rparr>)
                  [0 := \<lparr>queue = [pkt_s1\<lparr>mem_usage := 256\<rparr>, pkt_s2\<lparr>mem_usage := 256\<rparr>],
                          deficit = 1514, dropped = 0\<rparr>],
       backlogs := (replicate 4 0)[0 := 201],
       empty_flow_mask := (replicate 32 0x01010101)[0 := 0x01010101],
       memory_usage := 512, new_flow_count := 1, new_flows := [0]\<rparr>\<rparr>"

definition sch_s2t :: Qdisc where
  "sch_s2t = sch_limit2\<lparr>qlen := 2, qstats_backlog := 151, qstats_drops := 1,
     priv := (priv sch_limit2)\<lparr>
       flows := (replicate 4 \<lparr>queue = [], deficit = 0, dropped = 0\<rparr>)
                  [0 := \<lparr>queue = [pkt_s2\<lparr>mem_usage := 256\<rparr>], deficit = 1514, dropped = 1\<rparr>,
                   1 := \<lparr>queue = [pkt_t\<lparr>mem_usage := 256\<rparr>], deficit = 1514, dropped = 0\<rparr>],
       backlogs := (replicate 4 0)[0 := 101, 1 := 50],
       empty_flow_mask := (replicate 32 0x01010101)[0 := 0x01010101],
       memory_usage := 512, drop_overlimit := 1, new_flow_count := 2, new_flows := [0, 1]\<rparr>\<rparr>"

section \<open>Properties\<close>

lemmas concrete_defs = qdisc_zero_def priv_zero_def sch_default_def params0_def sch_full_def
  sch_slot0_free_def pkt_a_def pkt_b_def pkt_c_def pkt_p_def no_drops_def

lemma ffs_0: "ffs 0 = 0"
  by (simp add: ffs_def upt_rec)

lemma fq_codel_init_default:
  "fq_codel_init fuel cd qdisc_zero None 1514 params0 7 11 = Some (Inr sch_default)"
  by (simp add: fq_codel_init_def concrete_defs memset_words_def memset_u32_def)

subsection \<open>The bitmask after reset and init\<close>

text \<open>
  Claim C3 says that after reset, and equally after init, every bit of the words
  \<open>empty[0..31]\<close> and every first-level bit of \<open>mask_index\<close> is set, so that all slots are
  marked empty. The code fills the words with \<open>memset(\<dots>, 1, \<dots>)\<close>, which sets every
  byte to 1: after \<open>fq_codel_init\<close> without options, and after \<open>fq_codel_reset\<close> of that
  state, each of the 32 words and \<open>flow_mask_index\<close> is \<open>0x01010101\<close>, and for instance
  slot 1 is not marked empty.
\<close>

theorem reset_fills_bytes_with_one:
  "fq_codel_init fuel cd qdisc_zero None 1514 params0 7 11 = Some (Inr sch_default)
   \<and> empty_flow_mask (priv sch_default) = replicate 32 0x01010101
   \<and> flow_mask_index (priv sch_default) = 0x01010101
   \<and> empty_flow_mask (priv (fq_codel_reset sch_default)) = replicate 32 0x01010101
   \<and> flow_mask_index (priv (fq_codel_reset sch_default)) = 0x01010101
   \<and> \<not> slot_marked_empty (priv (fq_codel_reset sch_default)) 1"
  by (simp add: fq_codel_init_default)
     (simp add: fq_codel_reset_def concrete_defs memset_words_def memset_u32_def slot_marked_empty_def)

text \<open>
  Claim C4 says that in every state between operations, bit \<open>g\<close> of \<open>mask_index\<close> is set
  exactly when \<open>empty[g]\<close> is non-zero, and that reset (among the other operations)
  preserves this. In the code \<open>fq_codel_reset\<close> does not: from a state in which the
  invariant holds (every slot occupied) it leads to one in which all 32 words are
  non-zero and only four first-level bits are set. The state after \<open>fq_codel_init\<close>
  violates the invariant in the same way.
\<close>

theorem reset_breaks_mask_index_inv:
  "mask_index_inv (priv sch_full)
   \<and> \<not> mask_index_inv (priv (fq_codel_reset sch_full))
   \<and> \<not> mask_index_inv (priv sch_default)"
  by (simp add: fq_codel_reset_def concrete_defs memset_words_def memset_u32_def
        mask_index_inv_def upt_rec)

text \<open>
  The two marking operations do preserve the invariant, from any state in which it holds.
\<close>

lemma mask_index_inv_iff:
  "mask_index_inv q
     = (\<forall>g<32. bit (flow_mask_index q) (31 - g) = (empty_flow_mask q ! g \<noteq> 0))"
  by (auto simp add: mask_index_inv_def list_all_iff)

lemma word_bit_nonzero: "bit (w :: u32) k \<Longrightarrow> w \<noteq> 0"
  by auto

lemma mark_flow_as_empty_inv:
  assumes inv: "mask_index_inv q" and m: "mark_flow_as_empty q idx = Inr q'"
  shows "mask_index_inv q'"
proof -
  define G where "G = idx div 32"
  define k where "k = 31 - idx mod 32"
  from m have G: "G < 32" and l: "G < length (empty_flow_mask q)"
    by (auto simp: mark_flow_as_empty_def bindE_def array_at_def G_def split: if_splits)
  have s: "32 - (idx mod 32 + 1) = k" "32 - (idx div 32 + 1) = 31 - G"
    by (simp_all add: k_def G_def)
  from m G l have q': "q' = q\<lparr>flow_mask_index := flow_mask_index q OR push_bit (31 - G) 1,
       empty_flow_mask := (empty_flow_mask q)[G := empty_flow_mask q ! G OR push_bit k 1]\<rparr>"
    by (simp add: mark_flow_as_empty_def bindE_def array_at_def G_def [symmetric] k_def)
  have k: "k < 32" "31 - G < 32"
    by (simp_all add: k_def)
  have "bit (empty_flow_mask q ! G OR push_bit k 1) k"
    using k by (simp add: bit_simps)
  then have nz: "empty_flow_mask q ! G OR push_bit k 1 \<noteq> 0"
    by (rule word_bit_nonzero)
  show ?thesis
    unfolding mask_index_inv_iff
  proof (intro allI impI)
    fix g :: nat assume g: "g < 32"
    show "bit (flow_mask_index q') (31 - g) = (empty_flow_mask q' ! g \<noteq> 0)"
    proof (cases "g = G")
      case True
      with nz l k show ?thesis
        by (simp add: q' bit_simps)
    next
      case False
      with g G have "31 - g \<noteq> 31 - G" by arith
      with False inv g show ?thesis
        by (simp add: q' bit_simps mask_index_inv_iff)
    qed
  qed
qed

lemma mark_flow_as_non_empty_inv:
  assumes inv: "mask_index_inv q" and m: "mark_flow_as_non_empty q idx = Inr q'"
  shows "mask_index_inv q'"
proof -
  define G where "G = idx div 32"
  define k where "k = 31 - idx mod 32"
  define w where "w = empty_flow_mask q ! G AND NOT (push_bit k 1)"
  from m have G: "G < 32" and l: "G < length (empty_flow_mask q)"
    by (auto simp: mark_flow_as_non_empty_def bindE_def array_at_def G_def split: if_splits)
  have s: "32 - (idx mod 32 + 1) = k" "32 - (idx div 32 + 1) = 31 - G"
    by (simp_all add: k_def G_def)
  from m G l have q': "q' = (if w = 0
       then q\<lparr>empty_flow_mask := (empty_flow_mask q)[G := w],
              flow_mask_index := flow_mask_index q AND NOT (push_bit (31 - G) 1)\<rparr>
       else q\<lparr>empty_flow_mask := (empty_flow_mask q)[G := w]\<rparr>)"
    by (auto simp add: mark_flow_as_non_empty_def bindE_def array_at_def G_def [symmetric]
          Let_def w_def k_def split: if_splits)
  have k: "31 - G < 32"
    by simp
  have wz: "w \<noteq> 0 \<Longrightarrow> empty_flow_mask q ! G \<noteq> 0"
    by (auto simp add: w_def)
  show ?thesis
    unfolding mask_index_inv_iff
  proof (intro allI impI)
    fix g :: nat assume g: "g < 32"
    show "bit (flow_mask_index q') (31 - g) = (empty_flow_mask q' ! g \<noteq> 0)"
    proof (cases "g = G")
      case True
      with l k wz inv G show ?thesis
        by (auto simp add: q' bit_simps mask_index_inv_iff)
    next
      case False
      with g G have "31 - g \<noteq> 31 - G" "31 - g < 32" by arith+
      with False inv g show ?thesis
        by (auto simp add: q' bit_simps mask_index_inv_iff)
    qed
  qed
qed

subsection \<open>No free slot\<close>

text \<open>
  Claim C6, as amended: when \<open>mask_index\<close> has no set bit, \<open>get_next_empty_flow\<close> returns
  0, and the caller uses it as slot 0: when both buckets of the packet are empty,
  \<open>fq_codel_cuckoo_hash\<close> installs the value 1 in the first bucket and returns 1.
\<close>

theorem next_empty_no_free_slot:
  "flow_mask_index q = 0 \<Longrightarrow>
     get_next_empty_flow q = 0
     \<and> (array_at (hashtable q) (int (fq_codel_hash_modified q skb 0)) = Inr 0
        \<and> array_at (hashtable q) (int (fq_codel_hash_modified q skb 1)) = Inr 0
        \<longrightarrow> fq_codel_cuckoo_hash q skb
              = Inr (1, q\<lparr>hashtable := (hashtable q)[fq_codel_hash_modified q skb 0 := 1]\<rparr>))"
  by (auto simp add: get_next_empty_flow_def ffs_0 fq_codel_cuckoo_hash_def bindE_def Let_def
        array_at_def split: if_splits)

theorem next_empty_no_free_slot_witness:
  "flow_mask_index (priv sch_full) = 0
   \<and> get_next_empty_flow (priv sch_full) = 0
   \<and> array_at (hashtable (priv sch_full)) (int (fq_codel_hash_modified (priv sch_full) pkt_b 0)) = Inr 0
   \<and> array_at (hashtable (priv sch_full)) (int (fq_codel_hash_modified (priv sch_full) pkt_b 1)) = Inr 0
   \<and> fq_codel_cuckoo_hash (priv sch_full) pkt_b
       = Inr (1, (priv sch_full)\<lparr>hashtable := (hashtable (priv sch_full))[0 := 1]\<rparr>)"
proof -
  have m: "flow_mask_index (priv sch_full) = 0"
    by (simp add: concrete_defs)
  have h0: "fq_codel_hash_modified (priv sch_full) pkt_b 0 = 0"
    by (simp add: concrete_defs fq_codel_hash_modified_def reciprocal_scale_def)
  have a: "array_at (hashtable (priv sch_full))
             (int (fq_codel_hash_modified (priv sch_full) pkt_b 0)) = Inr 0"
    by (simp add: concrete_defs fq_codel_hash_modified_def reciprocal_scale_def array_at_def)
  have b: "array_at (hashtable (priv sch_full))
             (int (fq_codel_hash_modified (priv sch_full) pkt_b 1)) = Inr 0"
    by (simp add: concrete_defs fq_codel_hash_modified_def reciprocal_scale_def array_at_def)
  from next_empty_no_free_slot [OF m, of pkt_b] a b h0 m show ?thesis
    by simp
qed

text \<open>
  Claim C6 as stated asks for a result NONE that the caller can tell from slot 0 being
  free, and for callers that treat it as "no free slot". With every slot occupied the
  code returns 0, the value it also returns when slot 0 is the one free slot, and the
  classifier then installs and returns 1 (slot 0).
\<close>

theorem next_empty_full_same_as_slot0:
  "flow_mask_index (priv sch_full) = 0
   \<and> empty_flow_mask (priv sch_full) = replicate 32 0
   \<and> slot_marked_empty (priv sch_slot0_free) 0
   \<and> get_next_empty_flow (priv sch_slot0_free) = 0
   \<and> get_next_empty_flow (priv sch_full) = 0
   \<and> fq_codel_cuckoo_hash (priv sch_full) pkt_b
       = Inr (1, (priv sch_full)\<lparr>hashtable := (hashtable (priv sch_full))[0 := 1]\<rparr>)"
  by (simp add: concrete_defs slot_marked_empty_def get_next_empty_flow_def ffs_def upt_rec
      fq_codel_cuckoo_hash_def fq_codel_hash_modified_def reciprocal_scale_def bindE_def array_at_def)

subsection \<open>Classification by priority\<close>

text \<open>
  Claim C10: for a packet whose priority has the major number of the qdisc handle and a
  minor number \<open>m\<close> with \<open>1 \<le> m \<le> N\<close>, \<open>fq_codel_classify\<close> returns \<open>m\<close>. The scheduler
  state comes back unchanged, so no slot is allocated and no bucket written, nothing is
  written to \<open>*qerr\<close>, and the result is the same whatever the hashtable and the
  installed filter are: neither is consulted.
\<close>

theorem classify_priority_direct:
  "TC_H_MAJ (priority skb) = handle sch \<Longrightarrow>
   0 < TC_H_MIN (priority skb) \<Longrightarrow>
   TC_H_MIN (priority skb) \<le> flows_cnt (priv sch) \<Longrightarrow>
     fq_codel_classify skb sch = Inr (unat (TC_H_MIN (priority skb)), None, sch)"
  by (simp add: fq_codel_classify_def)

theorem classify_priority_direct_witness:
  "TC_H_MAJ (priority pkt_p) = handle sch_default
   \<and> 0 < TC_H_MIN (priority pkt_p)
   \<and> TC_H_MIN (priority pkt_p) \<le> flows_cnt (priv sch_default)
   \<and> fq_codel_classify pkt_p sch_default = Inr (1024, None, sch_default)"
proof -
  have 1: "TC_H_MAJ (priority pkt_p) = handle sch_default"
    by (simp add: concrete_defs TC_H_MAJ_def)
  have 2: "0 < TC_H_MIN (priority pkt_p)"
    by (simp add: concrete_defs TC_H_MIN_def)
  have 3: "TC_H_MIN (priority pkt_p) \<le> flows_cnt (priv sch_default)"
    by (simp add: concrete_defs TC_H_MIN_def)
  have 4: "unat (TC_H_MIN (priority pkt_p)) = 1024"
    by (simp add: concrete_defs TC_H_MIN_def)
  from classify_priority_direct [OF 1 2 3] 1 2 3 4 show ?thesis
    by simp
qed

subsection \<open>Reaching the concrete states\<close>

lemmas enqueue_defs = fq_codel_enqueue_def fq_codel_classify_def fq_codel_cuckoo_hash_def
  fq_codel_hash_modified_def reciprocal_scale_def TC_H_MAJ_def TC_H_MIN_def bindE_def array_at_def
  get_next_empty_flow_def ffs_def upt_rec mark_flow_as_non_empty_def flow_queue_add_def
  flowchain_empty_def NET_XMIT_SUCCESS_def Let_def

lemma fq_codel_change_trim_within:
  "\<not> over_limits sch \<Longrightarrow> fq_codel_change_trim fuel cd sch = Some (Inr sch)"
  by (cases fuel) simp_all

lemma fq_codel_init_flows4:
  "fq_codel_init fuel cd qdisc_zero (Some (tb_none\<lparr>TCA_FQ_CODEL_FLOWS := Some 4\<rparr>)) 1514 params0 7 11
     = Some (Inr sch_flows4)"
  by (simp add: fq_codel_init_def fq_codel_change_def fq_codel_change_trim_within over_limits_def
        tb_none_def sch_flows4_def concrete_defs memset_words_def memset_u32_def)

lemma enqueue_pkt_b: "fq_codel_enqueue pkt_b sch_default = Inr (Some 0, [], sch_b)"
  by (simp add: enqueue_defs sch_b_def concrete_defs)

lemma enqueue_pkt_c: "fq_codel_enqueue pkt_c sch_b = Inr (Some 0, [], sch_c)"
  by (simp add: enqueue_defs sch_b_def sch_c_def concrete_defs)

subsection \<open>The internal classifier\<close>

text \<open>
  Claim C1 says that the internal cuckoo classifier returns a flow slot in \<open>[0, N)\<close> for
  \<open>N = flows_cnt\<close> and never fails. The bitmask always describes 1024 slots, whatever
  \<open>flows_cnt\<close> is. On a scheduler initialised with \<open>FLOWS = 4\<close>, the classifier returns 1024
  for the first packet, that is slot 1023, and \<open>fq_codel_enqueue\<close> then indexes
  \<open>flows[1023]\<close> in an array of 4 flows.
\<close>

theorem cuckoo_slot_out_of_range:
  "fq_codel_init fuel cd qdisc_zero (Some (tb_none\<lparr>TCA_FQ_CODEL_FLOWS := Some 4\<rparr>)) 1514 params0 7 11
     = Some (Inr sch_flows4)
   \<and> flows_cnt (priv sch_flows4) = 4
   \<and> fq_codel_cuckoo_hash (priv sch_flows4) pkt_b
       = Inr (1024, (priv sch_flows4)\<lparr>hashtable := (replicate 8 0)[0 := 1024]\<rparr>)
   \<and> fq_codel_enqueue pkt_b sch_flows4 = Inl (OutOfBounds 1023)"
  by (simp add: fq_codel_init_flows4)
     (simp add: enqueue_defs sch_flows4_def concrete_defs)

text \<open>
  Claim C2 says that during displacement every bucket read or written is the one
  designated by the current packet's hash, \<open>table[H0 mod N]\<close> or \<open>table[N + (H1 mod N)]\<close>,
  and lies in \<open>[0, 2N)\<close>. \<open>cuckoo_rehash\<close> subtracts 1 from the designated index. For
  \<open>pkt_a\<close>, whose first bucket is 0, it reads \<open>hashtable[-1]\<close>; for \<open>pkt_p\<close>, whose first
  bucket is 1023, it places the value in bucket 1022.
\<close>

theorem cuckoo_rehash_off_by_one:
  "fq_codel_hash_modified (priv sch_c) pkt_a 0 = 0
   \<and> cuckoo_rehash (priv sch_c) pkt_a 1008 = Inl (OutOfBounds (- 1))
   \<and> fq_codel_hash_modified (priv sch_c) pkt_p 0 = 1023
   \<and> cuckoo_rehash (priv sch_c) pkt_p 1008
       = Inr ((priv sch_c)\<lparr>hashtable := (hashtable (priv sch_c))[1022 := 1008]\<rparr>)"
  unfolding cuckoo_rehash_def
  by (subst cuckoo_rehash_from.simps, subst cuckoo_rehash_from.simps)
     (simp add: sch_c_def concrete_defs fq_codel_hash_modified_def reciprocal_scale_def
        bindE_def array_at_def)

text \<open>
  The out-of-bounds read does not depend on the state: it happens for every packet whose
  first hash reduces to bucket 0, on every scheduler with at least one flow.
\<close>

lemma cuckoo_rehash_bucket0:
  assumes "0 < unat (flows_cnt q)" and "fq_codel_hash_modified q skb 0 = 0"
  shows "cuckoo_rehash q skb v = Inl (OutOfBounds (- 1))"
  unfolding cuckoo_rehash_def
  using assms by (subst cuckoo_rehash_from.simps) (simp add: array_at_def)

lemma cuckoo_hash_pkt_a: "fq_codel_cuckoo_hash (priv sch_c) pkt_a = Inl (OutOfBounds (- 1))"
  unfolding fq_codel_cuckoo_hash_def cuckoo_rehash_def
  by (subst cuckoo_rehash_from.simps)
     (simp add: sch_c_def concrete_defs fq_codel_hash_modified_def reciprocal_scale_def
        bindE_def array_at_def get_next_empty_flow_def ffs_def upt_rec)

text \<open>
  Claim C9 says that displacement always terminates within \<open>N\<close> swaps and that
  classification returns normally, without failure. After the enqueues of \<open>pkt_b\<close> and
  \<open>pkt_c\<close> on the default scheduler, the packet \<open>pkt_a\<close> of a third flow finds both of its
  buckets taken by live flows, and the displacement that follows reads \<open>hashtable[-1]\<close>:
  classification and the enqueue end in an access outside the table.
\<close>

theorem classify_third_flow_out_of_bounds:
  "fq_codel_enqueue pkt_b sch_default = Inr (Some 0, [], sch_b)
   \<and> fq_codel_enqueue pkt_c sch_b = Inr (Some 0, [], sch_c)
   \<and> fq_codel_classify pkt_a sch_c = Inl (OutOfBounds (- 1))
   \<and> fq_codel_enqueue pkt_a sch_c = Inl (OutOfBounds (- 1))"
proof -
  have "filter_list (priv sch_c) = None" "handle sch_c = 0x10000" "priority pkt_a = 0"
    by (simp_all add: sch_c_def concrete_defs)
  then have c: "fq_codel_classify pkt_a sch_c = Inl (OutOfBounds (- 1))"
    by (simp add: fq_codel_classify_def cuckoo_hash_pkt_a TC_H_MAJ_def TC_H_MIN_def bindE_def)
  then have e: "fq_codel_enqueue pkt_a sch_c = Inl (OutOfBounds (- 1))"
    by (simp add: fq_codel_enqueue_def bindE_def)
  from enqueue_pkt_b enqueue_pkt_c c e show ?thesis
    by blast
qed

text \<open>
  The bound on the number of swaps holds: the loop of \<open>cuckoo_rehash\<close> is a total function
  (its termination is proved with the measure \<open>flows_cnt - i\<close>), and every run, whether it
  ends by a placement, by the bound, by an empty head or by a fault, has executed at
  most \<open>flows_cnt\<close> swaps.
\<close>

lemma cuckoo_rehash_from_swaps:
  "fst (cuckoo_rehash_from i q skb v) \<le> unat (flows_cnt q) - i"
proof (induction i q skb v rule: cuckoo_rehash_from.induct)
  case (1 i q skb v)
  let ?N = "unat (flows_cnt q)"
  show ?case
  proof (cases "i < ?N")
    case False
    then show ?thesis
      by (subst cuckoo_rehash_from.simps) simp
  next
    case lt: True
    define ti where "ti = int (fq_codel_hash_modified q skb 0) - 1"
    show ?thesis
    proof (cases "array_at (hashtable q) ti")
      case (Inl e)
      then show ?thesis
        by (subst cuckoo_rehash_from.simps) (simp add: lt ti_def)
    next
      case b: (Inr b)
      show ?thesis
      proof (cases "b = 0")
        case True
        with b show ?thesis
          by (subst cuckoo_rehash_from.simps) (simp add: lt ti_def)
      next
        case bn: False
        define q1 where "q1 = q\<lparr>hashtable := (hashtable q)[nat ti := word_of_int v]\<rparr>"
        show ?thesis
        proof (cases "?N \<le> i + 1")
          case True
          with b bn lt show ?thesis
            by (subst cuckoo_rehash_from.simps) (simp add: ti_def)
        next
          case lt1: False
          show ?thesis
          proof (cases "array_at (flows q1) (uint b - 1)")
            case (Inl e)
            with b bn lt lt1 show ?thesis
              by (subst cuckoo_rehash_from.simps) (simp add: ti_def q1_def)
          next
            case f1: (Inr flow1)
            show ?thesis
            proof (cases "queue flow1")
              case Nil
              with f1 b bn lt lt1 show ?thesis
                by (subst cuckoo_rehash_from.simps) (simp add: ti_def q1_def)
            next
              case c1: (Cons skb1 rest1)
              define ti1 where "ti1 = int (fq_codel_hash_modified q1 skb1 1) - 1"
              show ?thesis
              proof (cases "array_at (hashtable q1) ti1")
                case (Inl e)
                with c1 f1 b bn lt lt1 show ?thesis
                  by (subst cuckoo_rehash_from.simps)
                     (simp add: ti_def q1_def ti1_def Let_def)
              next
                case b1: (Inr b1)
                show ?thesis
                proof (cases "b1 = 0")
                  case True
                  with b1 c1 f1 b bn lt lt1 show ?thesis
                    by (subst cuckoo_rehash_from.simps)
                       (simp add: ti_def q1_def ti1_def Let_def)
                next
                  case b1n: False
                  define q2 where "q2 = q1\<lparr>hashtable := (hashtable q1)[nat ti1 := word_of_int (uint b)]\<rparr>"
                  show ?thesis
                  proof (cases "array_at (flows q2) (uint b1 - 1)")
                    case (Inl e)
                    with b1n b1 c1 f1 b bn lt lt1 show ?thesis
                      by (subst cuckoo_rehash_from.simps)
                         (simp add: ti_def q1_def ti1_def Let_def
                            q2_def)
                  next
                    case f2: (Inr flow2)
                    show ?thesis
                    proof (cases "queue flow2")
                      case Nil
                      with f2 b1n b1 c1 f1 b bn lt lt1 show ?thesis
                        by (subst cuckoo_rehash_from.simps)
                           (simp add: ti_def q1_def ti1_def Let_def
                              q2_def)
                    next
                      case c2: (Cons skb2 rest2)
                      have N2: "flows_cnt q2 = flows_cnt q"
                        by (simp add: q2_def q1_def)
                      have nn: "\<not> \<not> i < ?N"
                        using lt by simp
                      note ih = "1.IH" [OF nn ti_def b bn q1_def refl refl lt1 f1 c1 ti1_def
                          b1 b1n q2_def refl f2 c2]
                      obtain n r where nr: "cuckoo_rehash_from (i + 1 + 1) q2 skb2 (uint b1) = (n, r)"
                        by (cases "cuckoo_rehash_from (i + 1 + 1) q2 skb2 (uint b1)")
                      with ih N2 lt lt1 have "n + 2 \<le> ?N - i"
                        by simp
                      with nr c2 f2 b1n b1 c1 f1 b bn lt lt1 show ?thesis
                        by (subst cuckoo_rehash_from.simps)
                           (simp add: ti_def q1_def ti1_def Let_def
                              q2_def)
                    qed
                  qed
                qed
              qed
            qed
          qed
        qed
      qed
    qed
  qed
qed

lemma cuckoo_rehash_swaps_bounded:
  "cuckoo_rehash_swaps q skb v \<le> unat (flows_cnt q)"
  using cuckoo_rehash_from_swaps [of 0 q skb v] by (simp add: cuckoo_rehash_swaps_def)

subsection \<open>Draining a flow\<close>

lemmas dequeue_defs = codel_dequeue_def dequeue_func_def fq_codel_dequeue_tail_def clear_bucket_def
  mark_flow_as_empty_def fq_codel_hash_modified_def reciprocal_scale_def bindE_def array_at_def
  word_sle_eq Let_def

lemma enqueue_pkt_p: "fq_codel_enqueue pkt_p sch_b = Inr (Some 0, [], sch_bp)"
  by (simp add: enqueue_defs sch_b_def sch_bp_def concrete_defs)

lemma dequeue_first:
  "fq_codel_dequeue (Suc fuel) no_drops sch_bp
     = Some (Inr (Some (pkt_b\<lparr>mem_usage := 256\<rparr>), sch_p))"
  by (simp add: dequeue_defs sch_bp_def sch_p_def concrete_defs)

lemma dequeue_second:
  "fq_codel_dequeue (Suc fuel) no_drops sch_p
     = Some (Inr (Some (pkt_p\<lparr>mem_usage := 256\<rparr>), sch_drained))"
  by (simp add: dequeue_defs sch_drained_def sch_p_def concrete_defs)

lemma mark_flow_as_empty_Inr:
  assumes "mark_flow_as_empty q idx = Inr q'"
  shows "idx < 1024" "slot_marked_empty q' idx" "bit (flow_mask_index q') (31 - idx div 32)"
    "hashtable q' = hashtable q" "flows q' = flows q" "flows_cnt q' = flows_cnt q"
    "random_seed q' = random_seed q"
proof -
  from assms have d: "idx div 32 < 32" and l: "idx div 32 < length (empty_flow_mask q)"
    by (auto simp: mark_flow_as_empty_def bindE_def array_at_def split: if_splits)
  from d show "idx < 1024" by simp
  from assms d l have q': "q' = q\<lparr>flow_mask_index := flow_mask_index q OR push_bit (32 - (idx div 32 + 1)) 1,
                 empty_flow_mask := (empty_flow_mask q)
                   [idx div 32 := empty_flow_mask q ! (idx div 32) OR push_bit (32 - (idx mod 32 + 1)) 1]\<rparr>"
    by (simp add: mark_flow_as_empty_def bindE_def array_at_def)
  have m: "32 - (idx mod 32 + 1) = 31 - idx mod 32" "32 - (idx div 32 + 1) = 31 - idx div 32"
    by simp_all
  have n: "31 - idx mod 32 < 32" "31 - idx div 32 < 32"
    by arith+
  show "slot_marked_empty q' idx"
    using l n by (simp add: q' slot_marked_empty_def bit_simps m)
  show "bit (flow_mask_index q') (31 - idx div 32)"
    using n by (simp add: q' bit_simps m)
  show "hashtable q' = hashtable q" "flows q' = flows q" "flows_cnt q' = flows_cnt q"
    "random_seed q' = random_seed q"
    by (simp_all add: q')
qed

lemma bindE_InrE:
  assumes "bindE m f = Inr y"
  obtains x where "m = Inr x" and "f x = Inr y"
  using assms by (cases m) (simp_all add: bindE_def)

lemma array_at_Inr_iff:
  "(array_at xs i = Inr x) = (0 \<le> i \<and> i < int (length xs) \<and> x = xs ! nat i)"
  by (auto simp add: array_at_def)

lemma clear_bucket_Inr:
  assumes "clear_bucket q h v = Inr q'"
  shows "h < length (hashtable q)"
    and "q' = q\<lparr>hashtable := (if uint (hashtable q ! h) = v then (hashtable q)[h := 0] else hashtable q)\<rparr>"
  using assms
  by (auto simp add: clear_bucket_def bindE_def array_at_def split: if_splits)

text \<open>
  The end of \<open>fq_codel_dequeue\<close>, for a packet \<open>skb\<close> that has left the queue of flow \<open>idx\<close>
  empty: the slot is marked empty at both levels and the two buckets of \<open>skb\<close> do not hold
  \<open>idx + 1\<close> afterwards; no other bucket is written.
\<close>

lemma dequeue_tail_drained:
  assumes res: "fq_codel_dequeue_tail sch idx skb = Inr (r, sch')"
      and emp: "queue (flows (priv sch) ! idx) = []"
  shows "r = Some skb
     \<and> idx < 1024
     \<and> queue (flows (priv sch') ! idx) = []
     \<and> slot_marked_empty (priv sch') idx
     \<and> bit (flow_mask_index (priv sch')) (31 - idx div 32)
     \<and> uint (hashtable (priv sch') ! fq_codel_hash_modified (priv sch) skb 0) \<noteq> int idx + 1
     \<and> uint (hashtable (priv sch') ! fq_codel_hash_modified (priv sch) skb 1) \<noteq> int idx + 1
     \<and> (\<forall>b. b \<noteq> fq_codel_hash_modified (priv sch) skb 0
            \<and> b \<noteq> fq_codel_hash_modified (priv sch) skb 1
            \<longrightarrow> hashtable (priv sch') ! b = hashtable (priv sch) ! b)"
proof -
  define q where "q = priv sch"
  define h1 where "h1 = fq_codel_hash_modified q skb 0"
  define h2 where "h2 = fq_codel_hash_modified q skb 1"
  define t1 where "t1 = (if uint (hashtable q ! h1) = int idx + 1 then (hashtable q)[h1 := 0] else hashtable q)"
  define t2 where "t2 = (if uint (t1 ! h2) = int idx + 1 then t1[h2 := 0] else t1)"
  from res obtain flow where fl: "array_at (flows q) (int idx) = Inr flow"
    unfolding fq_codel_dequeue_tail_def Let_def q_def by (rule bindE_InrE)
  then have idx: "idx < length (flows q)" and flow: "flow = flows q ! idx"
    by (simp_all add: array_at_Inr_iff)
  have emp': "queue flow = []"
    using emp by (simp add: flow q_def)
  define q1 where "q1 = q\<lparr>flows := (flows q)[idx := flow\<lparr>deficit := deficit flow - pkt_len skb\<rparr>]\<rparr>"
  define sch1 where "sch1 = sch\<lparr>bstats_bytes := bstats_bytes sch + ucast (pkt_len skb),
                     bstats_packets := bstats_packets sch + 1\<rparr>"
  define q2 where "q2 = (if drop_count (cstats q1) \<noteq> 0 \<and> qlen sch1 \<noteq> 0
                   then q1\<lparr>cstats := (cstats q1)\<lparr>drop_count := 0, drop_len := 0\<rparr>\<rparr>
                   else q1)"
  have q2_fields: "hashtable q2 = hashtable q" "flows_cnt q2 = flows_cnt q"
    "random_seed q2 = random_seed q" "queue (flows q2 ! idx) = []"
    using idx emp' by (simp_all add: q2_def q1_def)
  have unfolded: "fq_codel_dequeue_tail sch idx skb =
      bindE (mark_flow_as_empty q2 idx) (\<lambda>q3.
        bindE (clear_bucket q3 (fq_codel_hash_modified q3 skb 0) (int idx + 1)) (\<lambda>q4.
        bindE (clear_bucket q4 (fq_codel_hash_modified q3 skb 1) (int idx + 1)) (\<lambda>q5.
          Inr (Some skb, sch1\<lparr>priv := q5\<rparr>))))"
    using fl emp'
    by (simp add: fq_codel_dequeue_tail_def Let_def q_def [symmetric] bindE_def [of "Inr flow"]
          q1_def sch1_def q2_def)
  from res [unfolded unfolded] obtain q3 where m: "mark_flow_as_empty q2 idx = Inr q3"
    and rest3: "bindE (clear_bucket q3 (fq_codel_hash_modified q3 skb 0) (int idx + 1)) (\<lambda>q4.
        bindE (clear_bucket q4 (fq_codel_hash_modified q3 skb 1) (int idx + 1)) (\<lambda>q5.
          Inr (Some skb, sch1\<lparr>priv := q5\<rparr>))) = Inr (r, sch')"
    by (rule bindE_InrE)
  note f3 = mark_flow_as_empty_Inr [OF m]
  have hm: "fq_codel_hash_modified q3 skb 0 = h1" "fq_codel_hash_modified q3 skb 1 = h2"
    by (simp_all add: fq_codel_hash_modified_def h1_def h2_def f3 q2_fields)
  from rest3 [unfolded hm] obtain q4 where c1: "clear_bucket q3 h1 (int idx + 1) = Inr q4"
    and rest4: "bindE (clear_bucket q4 h2 (int idx + 1)) (\<lambda>q5.
          Inr (Some skb, sch1\<lparr>priv := q5\<rparr>)) = Inr (r, sch')"
    by (rule bindE_InrE)
  from rest4 obtain q5 where c2: "clear_bucket q4 h2 (int idx + 1) = Inr q5"
    and fin: "Inr (Some skb, sch1\<lparr>priv := q5\<rparr>) = (Inr (r, sch') :: error + sk_buff option \<times> Qdisc)"
    by (rule bindE_InrE)
  from clear_bucket_Inr [OF c1] have b1: "h1 < length (hashtable q)" and q4: "q4 = q3\<lparr>hashtable := t1\<rparr>"
    by (simp_all add: f3 q2_fields t1_def)
  from clear_bucket_Inr [OF c2] have b2: "h2 < length t1" and q5: "q5 = q3\<lparr>hashtable := t2\<rparr>"
    by (simp_all add: q4 t2_def)
  from fin have r: "r = Some skb" and s': "sch' = sch1\<lparr>priv := q5\<rparr>"
    by simp_all
  have "uint (t2 ! h1) \<noteq> int idx + 1"
    using b1 b2 by (auto simp add: t1_def t2_def nth_list_update split: if_splits)
  moreover have "uint (t2 ! h2) \<noteq> int idx + 1"
    using b1 b2 by (auto simp add: t1_def t2_def nth_list_update split: if_splits)
  moreover have "\<forall>b. b \<noteq> h1 \<and> b \<noteq> h2 \<longrightarrow> t2 ! b = hashtable q ! b"
    by (auto simp add: t1_def t2_def)
  ultimately show ?thesis
    using r f3 q2_fields
    by (simp add: s' q5 slot_marked_empty_def h1_def h2_def q_def)
qed

text \<open>
  Before its end, \<open>fq_codel_dequeue\<close> only takes packets out of flow queues and moves flows
  between the two lists: the cuckoo table is not written. The packet it returns is handed
  to the end of the function together with the flow selected in that pass.
\<close>

lemma fq_codel_dequeue_tail_packet:
  "fq_codel_dequeue_tail sch idx skb = Inr (r, sch') \<Longrightarrow> r = Some skb"
  by (auto simp add: fq_codel_dequeue_tail_def bindE_def Let_def split: sum.splits if_splits)

lemma queues_shrink_refl: "queues_shrink q q"
  by (simp add: queues_shrink_def)

lemma queues_shrink_trans:
  "queues_shrink q q1 \<Longrightarrow> queues_shrink q1 q2 \<Longrightarrow> queues_shrink q q2"
  unfolding queues_shrink_def by (auto; blast)

lemma dequeue_func_shrinks:
  assumes "dequeue_func sch idx = Inr (r, sch1)"
  shows "queues_shrink (priv sch) (priv sch1)"
    and "new_flows (priv sch1) = new_flows (priv sch)"
    and "old_flows (priv sch1) = old_flows (priv sch)"
    and "idx < length (flows (priv sch))"
    and "r = Some skb \<Longrightarrow> skb \<in> set (queue (flows (priv sch) ! idx))"
  using assms
  by (auto simp add: dequeue_func_def bindE_def array_at_def Let_def queues_shrink_def
        nth_list_update
      split: if_splits list.splits sum.splits)

lemma codel_drop_heads_shrinks:
  "codel_drop_heads k sch idx = Inr sch1 \<Longrightarrow>
     queues_shrink (priv sch) (priv sch1)
     \<and> new_flows (priv sch1) = new_flows (priv sch)
     \<and> old_flows (priv sch1) = old_flows (priv sch)"
proof (induction k arbitrary: sch)
  case 0
  then show ?case by (simp add: queues_shrink_refl)
next
  case (Suc k)
  from Suc.prems obtain r sch2 where d: "dequeue_func sch idx = Inr (r, sch2)"
    by (cases "dequeue_func sch idx") (auto simp add: bindE_def)
  note s = dequeue_func_shrinks(1-3) [OF d]
  show ?case
  proof (cases r)
    case None
    with Suc.prems d s show ?thesis by (simp add: bindE_def)
  next
    case (Some skb)
    define sch3 where "sch3 = drop_func skb (sch2\<lparr>priv := (priv sch2)
        \<lparr>cstats := (cstats (priv sch2))\<lparr>drop_len := drop_len (cstats (priv sch2)) + pkt_len skb,
                                         drop_count := drop_count (cstats (priv sch2)) + 1\<rparr>\<rparr>\<rparr>)"
    from Suc.prems d Some have "codel_drop_heads k sch3 idx = Inr sch1"
      by (simp add: bindE_def Let_def sch3_def)
    from Suc.IH [OF this] have i: "queues_shrink (priv sch3) (priv sch1)"
      "new_flows (priv sch1) = new_flows (priv sch3)" "old_flows (priv sch1) = old_flows (priv sch3)"
      by simp_all
    have e: "queues_shrink (priv sch2) (priv sch3)" "new_flows (priv sch3) = new_flows (priv sch2)"
      "old_flows (priv sch3) = old_flows (priv sch2)"
      by (simp_all add: sch3_def drop_func_def queues_shrink_def)
    from s e i show ?thesis
      by (auto intro: queues_shrink_trans)
  qed
qed

lemma codel_dequeue_shrinks:
  assumes "codel_dequeue cd sch idx = Inr (r, sch1)"
  shows "queues_shrink (priv sch) (priv sch1)"
    and "new_flows (priv sch1) = new_flows (priv sch)"
    and "old_flows (priv sch1) = old_flows (priv sch)"
    and "idx < length (flows (priv sch))"
    and "r = Some skb \<Longrightarrow> skb \<in> set (queue (flows (priv sch) ! idx))"
proof -
  from assms obtain flow where f: "array_at (flows (priv sch)) (int idx) = Inr flow"
    unfolding codel_dequeue_def by (rule bindE_InrE)
  then show len: "idx < length (flows (priv sch))"
    by (simp add: array_at_Inr_iff)
  obtain k marks where cd: "cd (queue flow) = (k, marks)"
    by (cases "cd (queue flow)")
  from assms f cd obtain sch2 where h: "codel_drop_heads k sch idx = Inr sch2"
    and rest: "bindE (dequeue_func sch2 idx) (\<lambda>(r, sch3).
            let q2 = priv sch3; st = cstats q2
            in Inr (r, sch3\<lparr>priv := q2\<lparr>cstats := st\<lparr>ecn_mark := ecn_mark st + marks\<rparr>\<rparr>\<rparr>))
          = Inr (r, sch1)"
    by (auto simp add: codel_dequeue_def bindE_def [of "Inr flow"] elim: bindE_InrE)
  from rest obtain r3 sch3 where d: "dequeue_func sch2 idx = Inr (r3, sch3)"
    and fin: "r = r3" "sch1 = sch3\<lparr>priv := (priv sch3)\<lparr>cstats := (cstats (priv sch3))
                \<lparr>ecn_mark := ecn_mark (cstats (priv sch3)) + marks\<rparr>\<rparr>\<rparr>"
    by (auto simp add: Let_def elim!: bindE_InrE)
  note a = codel_drop_heads_shrinks [OF h]
  note b = dequeue_func_shrinks [OF d]
  have c: "queues_shrink (priv sch3) (priv sch1)" "new_flows (priv sch1) = new_flows (priv sch3)"
    "old_flows (priv sch1) = old_flows (priv sch3)"
    by (simp_all add: fin queues_shrink_def)
  from a b(1) c show "queues_shrink (priv sch) (priv sch1)"
    by (blast intro: queues_shrink_trans)
  from a b c show "new_flows (priv sch1) = new_flows (priv sch)"
    "old_flows (priv sch1) = old_flows (priv sch)"
    by simp_all
  assume "r = Some skb"
  with b(5) [of skb] fin have "skb \<in> set (queue (flows (priv sch2) ! idx))"
    by simp
  with a len show "skb \<in> set (queue (flows (priv sch) ! idx))"
    by (auto simp add: queues_shrink_def)
qed

lemma fq_codel_dequeue_tail_keeps:
  assumes "fq_codel_dequeue_tail sch idx skb = Inr (r, sch')"
  shows "new_flows (priv sch') = new_flows (priv sch)"
    and "old_flows (priv sch') = old_flows (priv sch)"
    and "queue (flows (priv sch') ! idx) = queue (flows (priv sch) ! idx)"
    and "idx < length (flows (priv sch))"
proof -
  from assms obtain flow where fl: "array_at (flows (priv sch)) (int idx) = Inr flow"
    unfolding fq_codel_dequeue_tail_def Let_def by (rule bindE_InrE)
  then have idx: "idx < length (flows (priv sch))" and flow: "flow = flows (priv sch) ! idx"
    by (simp_all add: array_at_Inr_iff)
  show "idx < length (flows (priv sch))" by (rule idx)
  have "new_flows (priv sch') = new_flows (priv sch)
      \<and> old_flows (priv sch') = old_flows (priv sch)
      \<and> queue (flows (priv sch') ! idx) = queue (flows (priv sch) ! idx)"
  proof (cases "queue flow = []")
    case False
    then have "queue (flows (priv sch) ! idx) \<noteq> []"
      by (simp add: flow)
    with assms idx show ?thesis
      by (auto simp add: fq_codel_dequeue_tail_def Let_def bindE_def array_at_def
            split: if_splits)
  next
    case True
    with assms fl obtain q3 q4 q5 where
      m: "mark_flow_as_empty
            (if drop_count (cstats (priv sch)) \<noteq> 0 \<and> qlen sch \<noteq> 0
             then (priv sch)\<lparr>flows := (flows (priv sch))[idx := flow\<lparr>deficit := deficit flow - pkt_len skb\<rparr>],
                              cstats := (cstats (priv sch))\<lparr>drop_count := 0, drop_len := 0\<rparr>\<rparr>
             else (priv sch)\<lparr>flows := (flows (priv sch))[idx := flow\<lparr>deficit := deficit flow - pkt_len skb\<rparr>]\<rparr>)
            idx = Inr q3"
      and c1: "clear_bucket q3 (fq_codel_hash_modified q3 skb 0) (int idx + 1) = Inr q4"
      and c2: "clear_bucket q4 (fq_codel_hash_modified q3 skb 1) (int idx + 1) = Inr q5"
      and s': "sch' = sch\<lparr>bstats_bytes := bstats_bytes sch + ucast (pkt_len skb),
                          bstats_packets := bstats_packets sch + 1, priv := q5\<rparr>"
      by (auto simp add: fq_codel_dequeue_tail_def Let_def bindE_def [of "Inr flow"]
            elim!: bindE_InrE split: if_splits)
    from m have q3: "new_flows q3 = new_flows (priv sch)" "old_flows q3 = old_flows (priv sch)"
      "flows q3 = (flows (priv sch))[idx := flow\<lparr>deficit := deficit flow - pkt_len skb\<rparr>]"
      by (auto simp add: mark_flow_as_empty_def bindE_def array_at_def split: if_splits)
    from clear_bucket_Inr(2) [OF c1] clear_bucket_Inr(2) [OF c2]
    have q5: "new_flows q5 = new_flows q3" "old_flows q5 = old_flows q3" "flows q5 = flows q3"
      by (simp_all split: if_splits)
    from q3 q5 idx flow show ?thesis
      by (simp add: s')
  qed
  then show "new_flows (priv sch') = new_flows (priv sch)"
    "old_flows (priv sch') = old_flows (priv sch)"
    "queue (flows (priv sch') ! idx) = queue (flows (priv sch) ! idx)"
    by simp_all
qed

lemma fq_codel_dequeue_selected:
  "fq_codel_dequeue fuel cd sch = Some (Inr (Some skb, sch')) \<Longrightarrow>
     \<exists>sch1. fq_codel_dequeue_tail sch1 (selected_flow (priv sch1)) skb = Inr (Some skb, sch')
          \<and> queues_shrink (priv sch) (priv sch1)
          \<and> selected_flow (priv sch1) < length (flows (priv sch1))
          \<and> skb \<in> set (queue (flows (priv sch) ! selected_flow (priv sch1)))"
proof (induction fuel arbitrary: sch)
  case 0
  then show ?case by simp
next
  case (Suc fuel)
  define q where "q = priv sch"
  define from_new where "from_new = (new_flows q \<noteq> [])"
  define idx where "idx = selected_flow q"
  have idx': "(if from_new then hd (new_flows q) else hd (old_flows q)) = idx"
    by (simp add: idx_def selected_flow_def from_new_def)
  from Suc.prems have ne: "\<not> (new_flows q = [] \<and> old_flows q = [])"
    by (auto simp add: q_def Let_def)
  from Suc.prems ne obtain flow where fl: "array_at (flows q) (int idx) = Inr flow"
    by (cases "array_at (flows q) (int idx)")
       (auto simp add: Let_def q_def [symmetric] from_new_def [symmetric] idx')
  then have len: "idx < length (flows q)" and flow: "flow = flows q ! idx"
    by (simp_all add: array_at_Inr_iff)
  show ?case
  proof (cases "deficit flow \<le>s 0")
    case True
    define schD where "schD = sch\<lparr>priv := list_move_tail_old
        (q\<lparr>flows := (flows q)[idx := flow\<lparr>deficit := deficit flow + quantum q\<rparr>]\<rparr>) from_new idx\<rparr>"
    from Suc.prems ne fl True have "fq_codel_dequeue fuel cd schD = Some (Inr (Some skb, sch'))"
      by (simp add: Let_def q_def [symmetric] from_new_def [symmetric] idx' schD_def)
    from Suc.IH [OF this] obtain sch1 where
      t: "fq_codel_dequeue_tail sch1 (selected_flow (priv sch1)) skb = Inr (Some skb, sch')"
      and sh: "queues_shrink (priv schD) (priv sch1)"
      and l1: "selected_flow (priv sch1) < length (flows (priv sch1))"
      and mem: "skb \<in> set (queue (flows (priv schD) ! selected_flow (priv sch1)))"
      by blast
    have qs: "\<And>j. queue (flows (priv schD) ! j) = queue (flows q ! j)"
      using len flow by (simp add: schD_def list_move_tail_old_def nth_list_update)
    have d: "queues_shrink q (priv schD)"
      using qs by (simp add: queues_shrink_def) (simp add: schD_def list_move_tail_old_def)
    from t sh l1 mem d qs show ?thesis
      by (auto simp add: q_def intro: queues_shrink_trans)
  next
    case False
    from Suc.prems ne fl False obtain r sch1c where cdq: "codel_dequeue cd sch idx = Inr (r, sch1c)"
      by (cases "codel_dequeue cd sch idx")
         (auto simp add: Let_def q_def [symmetric] from_new_def [symmetric] idx')
    note c = codel_dequeue_shrinks [OF cdq]
    define q1 where "q1 = priv sch1c"
    define d where "d = (drop_count (cstats q1) - drop_count (cstats q))
                           + (ecn_mark (cstats q1) - ecn_mark (cstats q))"
    define q2 where "q2 = q1\<lparr>flows := (flows q1)
                            [idx := (flows q1 ! idx)\<lparr>dropped := dropped (flows q1 ! idx) + d\<rparr>]\<rparr>"
    have l1: "length (flows q1) = length (flows q)"
      using c(1) by (simp add: queues_shrink_def q1_def q_def)
    have qs2: "\<And>j. queue (flows q2 ! j) = queue (flows q1 ! j)"
      using len l1 by (simp add: q2_def nth_list_update)
    have f2: "hashtable q2 = hashtable q1" "flows_cnt q2 = flows_cnt q1"
      "random_seed q2 = random_seed q1" "length (flows q2) = length (flows q1)"
      by (simp_all add: q2_def)
    have "queues_shrink q1 q2"
      by (simp add: queues_shrink_def f2 qs2)
    moreover have "queues_shrink q q1"
      using c(1) by (simp add: q_def q1_def)
    ultimately have s2: "queues_shrink q q2"
      by (blast intro: queues_shrink_trans)
    show ?thesis
    proof (cases r)
      case None
      define schN where "schN = sch1c\<lparr>priv := (if from_new \<and> old_flows q2 \<noteq> []
                                                   then list_move_tail_old q2 from_new idx
                                                   else list_del_init q2 from_new)\<rparr>"
      have idxT: "from_new \<Longrightarrow> hd (new_flows q) = idx"
        using idx' by simp
      from Suc.prems ne fl False cdq None
      have "fq_codel_dequeue fuel cd schN = Some (Inr (Some skb, sch'))"
        by (auto simp add: Let_def q_def [symmetric] from_new_def [symmetric] idx' schN_def
              q1_def d_def q2_def idxT split: if_splits)
      from Suc.IH [OF this] obtain sch1 where
        t: "fq_codel_dequeue_tail sch1 (selected_flow (priv sch1)) skb = Inr (Some skb, sch')"
        and sh: "queues_shrink (priv schN) (priv sch1)"
        and ls: "selected_flow (priv sch1) < length (flows (priv sch1))"
        and mem: "skb \<in> set (queue (flows (priv schN) ! selected_flow (priv sch1)))"
        by blast
      have n: "queues_shrink q2 (priv schN)"
        by (simp add: schN_def queues_shrink_def list_move_tail_old_def list_del_init_def)
      from s2 n sh have tot: "queues_shrink q (priv sch1)"
        by (blast intro: queues_shrink_trans)
      from s2 n have "queues_shrink q (priv schN)"
        by (blast intro: queues_shrink_trans)
      moreover from tot ls have "selected_flow (priv sch1) < length (flows q)"
        by (simp add: queues_shrink_def)
      ultimately have "skb \<in> set (queue (flows q ! selected_flow (priv sch1)))"
        using mem by (auto simp add: queues_shrink_def)
      with t tot ls show ?thesis
        by (auto simp add: q_def)
    next
      case (Some skb')
      define sch1 where "sch1 = sch1c\<lparr>priv := q2\<rparr>"
      from Suc.prems ne fl False cdq Some
      have t: "fq_codel_dequeue_tail sch1 idx skb' = Inr (Some skb, sch')"
        by (simp add: Let_def q_def [symmetric] from_new_def [symmetric] idx' sch1_def
              q1_def d_def q2_def)
      from fq_codel_dequeue_tail_packet [OF t] have e: "skb' = skb"
        by simp
      have sel: "selected_flow (priv sch1) = idx"
        using c(2,3) by (simp add: sch1_def q2_def q1_def selected_flow_def idx_def q_def)
      from c(5) [of skb] Some e have "skb \<in> set (queue (flows q ! idx))"
        by (simp add: q_def)
      with t e sel s2 len l1 show ?thesis
        by (intro exI [of _ sch1]) (simp add: sch1_def q_def [symmetric] q2_def)
    qed
  qed
qed


text \<open>
  Claim C5, as amended. Let a call of \<open>fq_codel_dequeue\<close> on \<open>sch\<close> return the packet \<open>skb\<close>
  and the state \<open>sch'\<close>, let \<open>s\<close> be the flow slot the call selected (the head of its flow
  list in \<open>sch'\<close>), and let the queue of \<open>s\<close> be empty in \<open>sch'\<close>. Then \<open>skb\<close> was queued in
  slot \<open>s\<close> of \<open>sch\<close>, \<open>s < 1024\<close>, the bit of slot \<open>s\<close> and the first-level bit of its group
  are set in \<open>sch'\<close>, and the two buckets \<open>skb\<close> hashes to do not hold \<open>s + 1\<close> in \<open>sch'\<close>.
  Every other bucket of \<open>sch'\<close> holds what it held in \<open>sch\<close>.
\<close>

theorem fq_codel_dequeue_drained:
  assumes res: "fq_codel_dequeue fuel cd sch = Some (Inr (Some skb, sch'))"
      and emp: "queue (flows (priv sch') ! selected_flow (priv sch')) = []"
  shows "skb \<in> set (queue (flows (priv sch) ! selected_flow (priv sch')))
     \<and> selected_flow (priv sch') < 1024
     \<and> slot_marked_empty (priv sch') (selected_flow (priv sch'))
     \<and> bit (flow_mask_index (priv sch')) (31 - selected_flow (priv sch') div 32)
     \<and> uint (hashtable (priv sch') ! fq_codel_hash_modified (priv sch) skb 0)
          \<noteq> int (selected_flow (priv sch')) + 1
     \<and> uint (hashtable (priv sch') ! fq_codel_hash_modified (priv sch) skb 1)
          \<noteq> int (selected_flow (priv sch')) + 1
     \<and> (\<forall>b. b \<noteq> fq_codel_hash_modified (priv sch) skb 0
            \<and> b \<noteq> fq_codel_hash_modified (priv sch) skb 1
            \<longrightarrow> hashtable (priv sch') ! b = hashtable (priv sch) ! b)"
proof -
  from fq_codel_dequeue_selected [OF res] obtain sch1 where
    t: "fq_codel_dequeue_tail sch1 (selected_flow (priv sch1)) skb = Inr (Some skb, sch')"
    and sh: "queues_shrink (priv sch) (priv sch1)"
    and mem: "skb \<in> set (queue (flows (priv sch) ! selected_flow (priv sch1)))"
    by blast
  note k = fq_codel_dequeue_tail_keeps [OF t]
  from k(1,2) have s: "selected_flow (priv sch1) = selected_flow (priv sch')"
    by (simp add: selected_flow_def)
  from k(3) emp have e1: "queue (flows (priv sch1) ! selected_flow (priv sch1)) = []"
    by (simp add: s)
  from sh have h: "fq_codel_hash_modified (priv sch1) skb i = fq_codel_hash_modified (priv sch) skb i"
    for i
    by (simp add: fq_codel_hash_modified_def queues_shrink_def)
  from sh have tab: "hashtable (priv sch1) = hashtable (priv sch)"
    by (simp add: queues_shrink_def)
  from dequeue_tail_drained [OF t e1] mem show ?thesis
    unfolding s h tab by blast
qed

theorem fq_codel_dequeue_drained_witness:
  "fq_codel_dequeue (Suc 0) no_drops sch_p = Some (Inr (Some (pkt_p\<lparr>mem_usage := 256\<rparr>), sch_drained))
   \<and> selected_flow (priv sch_drained) = 1023
   \<and> queue (flows (priv sch_drained) ! 1023) = []
   \<and> pkt_p\<lparr>mem_usage := 256\<rparr> \<in> set (queue (flows (priv sch_p) ! 1023))
   \<and> slot_marked_empty (priv sch_drained) 1023
   \<and> bit (flow_mask_index (priv sch_drained)) 0
   \<and> uint (hashtable (priv sch_drained) ! 1023) \<noteq> 1024
   \<and> uint (hashtable (priv sch_drained) ! 2047) \<noteq> 1024
   \<and> hashtable (priv sch_drained) ! 0 = hashtable (priv sch_p) ! 0"
proof -
  have s: "selected_flow (priv sch_drained) = 1023"
    by (simp add: selected_flow_def sch_drained_def concrete_defs)
  have e: "queue (flows (priv sch_drained) ! selected_flow (priv sch_drained)) = []"
    unfolding s by (simp add: sch_drained_def concrete_defs)
  have h: "fq_codel_hash_modified (priv sch_p) (pkt_p\<lparr>mem_usage := 256\<rparr>) 0 = 1023"
    "fq_codel_hash_modified (priv sch_p) (pkt_p\<lparr>mem_usage := 256\<rparr>) 1 = 2047"
    by (simp_all add: sch_p_def concrete_defs fq_codel_hash_modified_def reciprocal_scale_def)
  from fq_codel_dequeue_drained [OF dequeue_second [of 0] e] dequeue_second [of 0] e
  show ?thesis
    unfolding s h by simp
qed

text \<open>
  Claim C5 as stated says that after a dequeue that leaves slot \<open>s\<close> empty no bucket
  holds \<open>s + 1\<close>. On the default scheduler \<open>pkt_b\<close> is classified by the cuckoo table to
  slot 1023 (bucket 0 holds 1024) and \<open>pkt_p\<close> joins the same slot through its priority.
  The dequeue that delivers \<open>pkt_p\<close> empties slot 1023 and marks it empty, but clears only
  the buckets of \<open>pkt_p\<close>: bucket 0 still holds 1024.
\<close>

theorem dequeue_leaves_stale_bucket:
  "fq_codel_dequeue (Suc 0) no_drops sch_p = Some (Inr (Some (pkt_p\<lparr>mem_usage := 256\<rparr>), sch_drained))
   \<and> queue (flows (priv sch_p) ! 1023) = [pkt_p\<lparr>mem_usage := 256\<rparr>]
   \<and> queue (flows (priv sch_drained) ! 1023) = []
   \<and> slot_marked_empty (priv sch_drained) 1023
   \<and> hashtable (priv sch_drained) ! 0 = 1024"
proof -
  have "queue (flows (priv sch_p) ! 1023) = [pkt_p\<lparr>mem_usage := 256\<rparr>]"
    "queue (flows (priv sch_drained) ! 1023) = []"
    "slot_marked_empty (priv sch_drained) 1023"
    "hashtable (priv sch_drained) ! 0 = 1024"
    by (simp_all add: sch_drained_def sch_p_def concrete_defs slot_marked_empty_def)
  with dequeue_second [of 0] show ?thesis
    by blast
qed

lemma sch_p_reached:
  "fq_codel_init fuel cd qdisc_zero None 1514 params0 7 11 = Some (Inr sch_default)
   \<and> fq_codel_enqueue pkt_b sch_default = Inr (Some 0, [], sch_b)
   \<and> fq_codel_enqueue pkt_p sch_b = Inr (Some 0, [], sch_bp)
   \<and> fq_codel_dequeue (Suc 0) no_drops sch_bp
        = Some (Inr (Some (pkt_b\<lparr>mem_usage := 256\<rparr>), sch_p))"
  using fq_codel_init_default enqueue_pkt_b enqueue_pkt_p dequeue_first [of 0]
  by blast

subsection \<open>The drop batch size\<close>

text \<open>
  Claim C8 says that a value \<open>v \<ge> 1\<close> given for DROP\_BATCH\_SIZE becomes the cap of the
  fat-flow drop. \<open>fq_codel_change\<close> stores \<open>min(1U, v)\<close>: on the default scheduler every
  value is replaced by \<open>min 1 v\<close>, and the value 64 (the default set by \<open>fq_codel_init\<close>)
  becomes 1.
\<close>

theorem drop_batch_size_clamped_to_one:
  "fq_codel_change fuel cd sch_default (Some (tb_none\<lparr>TCA_FQ_CODEL_DROP_BATCH_SIZE := Some v\<rparr>))
     = Some (Inr (sch_default\<lparr>priv := (priv sch_default)\<lparr>drop_batch_size := min 1 v\<rparr>\<rparr>))
   \<and> fq_codel_change fuel cd sch_default (Some (tb_none\<lparr>TCA_FQ_CODEL_DROP_BATCH_SIZE := Some 64\<rparr>))
     = Some (Inr (sch_default\<lparr>priv := (priv sch_default)\<lparr>drop_batch_size := 1\<rparr>\<rparr>))
   \<and> drop_batch_size (priv sch_default) = 64"
  by (simp add: fq_codel_change_def fq_codel_change_trim_within over_limits_def tb_none_def
        concrete_defs)

subsection \<open>The fat-flow drop\<close>

lemma fat_flow_scan_spec:
  assumes "fat_flow_scan bs i mb idx = (m, j)"
  shows "mb \<le> m \<and> (\<forall>b\<in>set bs. b \<le> m)
     \<and> ((m = mb \<and> j = idx)
        \<or> (mb < m \<and> i \<le> j \<and> j < i + length bs \<and> bs ! (j - i) = m \<and> (\<forall>k < j - i. bs ! k < m)))"
  using assms
proof (induction bs arbitrary: i mb idx)
  case Nil
  then show ?case by simp
next
  case (Cons b bs)
  show ?case
  proof (cases "b > mb")
    case True
    with Cons.prems have "fat_flow_scan bs (Suc i) b i = (m, j)" by simp
    from Cons.IH [OF this] have le: "b \<le> m" and all: "\<forall>x\<in>set bs. x \<le> m"
      and d: "(m = b \<and> j = i) \<or>
              (b < m \<and> Suc i \<le> j \<and> j < Suc i + length bs \<and> bs ! (j - Suc i) = m
                 \<and> (\<forall>k < j - Suc i. bs ! k < m))"
      by blast+
    from d have "mb < m \<and> i \<le> j \<and> j < i + length (b # bs) \<and> (b # bs) ! (j - i) = m
        \<and> (\<forall>k < j - i. (b # bs) ! k < m)"
    proof
      assume "m = b \<and> j = i"
      with True show ?thesis by simp
    next
      assume a: "b < m \<and> Suc i \<le> j \<and> j < Suc i + length bs \<and> bs ! (j - Suc i) = m
                 \<and> (\<forall>k < j - Suc i. bs ! k < m)"
      then have e: "j - i = Suc (j - Suc i)" by arith
      have "\<forall>k < j - i. (b # bs) ! k < m"
      proof (intro allI impI)
        fix k assume "k < j - i"
        with a e show "(b # bs) ! k < m"
          by (cases k) auto
      qed
      with a e True show ?thesis by auto
    qed
    with True le all show ?thesis by auto
  next
    case False
    with Cons.prems have "fat_flow_scan bs (Suc i) mb idx = (m, j)" by simp
    from Cons.IH [OF this] have le: "mb \<le> m" and all: "\<forall>x\<in>set bs. x \<le> m"
      and d: "(m = mb \<and> j = idx) \<or>
              (mb < m \<and> Suc i \<le> j \<and> j < Suc i + length bs \<and> bs ! (j - Suc i) = m
                 \<and> (\<forall>k < j - Suc i. bs ! k < m))"
      by blast+
    from False le have bm: "b \<le> m" by simp
    from d have "(m = mb \<and> j = idx) \<or> (mb < m \<and> i \<le> j \<and> j < i + length (b # bs) \<and> (b # bs) ! (j - i) = m
        \<and> (\<forall>k < j - i. (b # bs) ! k < m))"
    proof
      assume "m = mb \<and> j = idx"
      then show ?thesis by simp
    next
      assume a: "mb < m \<and> Suc i \<le> j \<and> j < Suc i + length bs \<and> bs ! (j - Suc i) = m
                 \<and> (\<forall>k < j - Suc i. bs ! k < m)"
      then have e: "j - i = Suc (j - Suc i)" by arith
      have "\<forall>k < j - i. (b # bs) ! k < m"
      proof (intro allI impI)
        fix k assume "k < j - i"
        with a e False show "(b # bs) ! k < m"
          by (cases k) auto
      qed
      with a e show ?thesis by auto
    qed
    with le all bm show ?thesis by auto
  qed
qed

lemma fat_flow_scan_max:
  assumes scan: "fat_flow_scan bs 0 0 0 = (m, j)" and ne: "bs \<noteq> []"
  shows "j < length bs" "bs ! j = m" "\<forall>k < length bs. bs ! k \<le> m" "\<forall>k < j. bs ! k < m"
proof -
  from fat_flow_scan_spec [OF scan] have all: "\<forall>b\<in>set bs. b \<le> m"
    and d: "(m = 0 \<and> j = 0) \<or> (0 < m \<and> j < length bs \<and> bs ! j = m \<and> (\<forall>k < j. bs ! k < m))"
    by auto
  from all show "\<forall>k < length bs. bs ! k \<le> m" by simp
  from ne have "hd bs \<in> set bs" "bs ! 0 = hd bs" "0 < length bs"
    by (simp_all add: hd_conv_nth)
  with all have z: "m = 0 \<Longrightarrow> bs ! 0 = 0"
    by (metis word_le_0_iff)
  from d z \<open>0 < length bs\<close> show "j < length bs" "bs ! j = m" "\<forall>k < j. bs ! k < m"
    by auto
qed

lemma drop_loop_Inr:
  assumes "drop_loop xs i len mem tf mx thr = Inr (rest, i', len', mem', tf')"
  shows "\<exists>k. 1 \<le> k \<and> k \<le> length xs \<and> rest = drop k xs \<and> tf' = tf @ take k xs
     \<and> i' = i + of_nat k
     \<and> len' = len + sum_list (map pkt_len (take k xs))
     \<and> mem' = mem + sum_list (map mem_usage (take k xs))
     \<and> \<not> (i + of_nat k < mx \<and> len + sum_list (map pkt_len (take k xs)) < thr)
     \<and> (\<forall>j. 1 \<le> j \<and> j < k \<longrightarrow>
           i + of_nat j < mx \<and> len + sum_list (map pkt_len (take j xs)) < thr)"
  using assms
proof (induction xs arbitrary: i len mem tf)
  case Nil
  then show ?case by simp
next
  case (Cons x xs)
  show ?case
  proof (cases "i + 1 < mx \<and> len + pkt_len x < thr")
    case True
    with Cons.prems have
      "drop_loop xs (i + 1) (len + pkt_len x) (mem + mem_usage x) (tf @ [x]) mx thr
         = Inr (rest, i', len', mem', tf')"
      by (simp add: Let_def)
    from Cons.IH [OF this] obtain k where k: "1 \<le> k" "k \<le> length xs" "rest = drop k xs"
      "tf' = (tf @ [x]) @ take k xs" "i' = i + 1 + of_nat k"
      "len' = len + pkt_len x + sum_list (map pkt_len (take k xs))"
      "mem' = mem + mem_usage x + sum_list (map mem_usage (take k xs))"
      "\<not> (i + 1 + of_nat k < mx \<and> len + pkt_len x + sum_list (map pkt_len (take k xs)) < thr)"
      "\<forall>j. 1 \<le> j \<and> j < k \<longrightarrow>
           i + 1 + of_nat j < mx \<and> len + pkt_len x + sum_list (map pkt_len (take j xs)) < thr"
      by blast
    have "\<forall>j. 1 \<le> j \<and> j < Suc k \<longrightarrow>
           i + of_nat j < mx \<and> len + sum_list (map pkt_len (take j (x # xs))) < thr"
    proof (intro allI impI)
      fix j assume j: "1 \<le> j \<and> j < Suc k"
      then obtain j' where j': "j = Suc j'" by (cases j) auto
      show "i + of_nat j < mx \<and> len + sum_list (map pkt_len (take j (x # xs))) < thr"
      proof (cases "j' = 0")
        case True
        with j' \<open>i + 1 < mx \<and> len + pkt_len x < thr\<close> show ?thesis by simp
      next
        case False
        with j j' k(9) have "i + 1 + of_nat j' < mx
            \<and> len + pkt_len x + sum_list (map pkt_len (take j' xs)) < thr"
          by auto
        with j' show ?thesis by (simp add: add.assoc)
      qed
    qed
    with k show ?thesis
      by (intro exI [of _ "Suc k"]) (simp add: add.assoc)
  next
    case False
    with Cons.prems have "rest = xs" "i' = i + 1" "len' = len + pkt_len x"
      "mem' = mem + mem_usage x" "tf' = tf @ [x]"
      by (auto simp add: Let_def)
    with False show ?thesis
      by (intro exI [of _ 1]) simp
  qed
qed

lemma drop_loop_returns:
  assumes "xs \<noteq> []" and "\<not> (len + sum_list (map pkt_len xs) < thr)"
  shows "\<exists>r. drop_loop xs i len mem tf mx thr = Inr r"
  using assms
proof (induction xs arbitrary: i len mem tf)
  case Nil
  then show ?case by simp
next
  case (Cons x xs)
  show ?case
  proof (cases "i + 1 < mx \<and> len + pkt_len x < thr")
    case True
    with Cons.prems(2) have ne: "xs \<noteq> []" by auto
    from Cons.prems(2) have "\<not> (len + pkt_len x + sum_list (map pkt_len xs) < thr)"
      by (simp add: add.assoc)
    from Cons.IH [OF ne this] True show ?thesis
      by (simp add: Let_def)
  next
    case False
    then show ?thesis by (auto simp add: Let_def)
  qed
qed

lemma drop_bit_word_le: "drop_bit n (w :: u32) \<le> w"
  unfolding word_le_nat_alt unat_drop_bit_eq
  by (simp add: drop_bit_eq_div)

text \<open>
  \<open>fq_codel_drop\<close> on a scheduler whose \<open>backlogs\<close> array has \<open>flows_cnt\<close> entries, each the
  sum of the packet lengths queued on its flow, and not all zero: it returns, the index it
  returns is the first one of maximum backlog, the packets dropped are the first \<open>k \<ge> 1\<close>
  packets of that flow's queue, \<open>k\<close> is the first count at which the loop condition
  \<open>k < max_packets && len < (maxbacklog >> 1)\<close> fails, and the counters move by the dropped
  amounts.
\<close>

lemma fq_codel_drop_fat_flow:
  assumes n: "unat (flows_cnt (priv sch)) = length (backlogs (priv sch))"
      and cons: "backlogs (priv sch)
                   = map (\<lambda>f. sum_list (map pkt_len (queue f))) (flows (priv sch))"
      and some: "\<exists>b\<in>set (backlogs (priv sch)). b \<noteq> 0"
  shows "\<exists>idx to_free sch'.
       fq_codel_drop sch max_packets = Inr (idx, to_free, sch')
     \<and> idx < length (backlogs (priv sch))
     \<and> (\<forall>j < length (backlogs (priv sch)). backlogs (priv sch) ! j \<le> backlogs (priv sch) ! idx)
     \<and> (\<forall>j < idx. backlogs (priv sch) ! j < backlogs (priv sch) ! idx)
     \<and> 1 \<le> length to_free
     \<and> to_free = take (length to_free) (queue (flows (priv sch) ! idx))
     \<and> queue (flows (priv sch') ! idx) = drop (length to_free) (queue (flows (priv sch) ! idx))
     \<and> \<not> (of_nat (length to_free) < max_packets
           \<and> sum_list (map pkt_len to_free) < drop_bit 1 (backlogs (priv sch) ! idx))
     \<and> (\<forall>k. 1 \<le> k \<and> k < length to_free \<longrightarrow>
            of_nat k < max_packets
            \<and> sum_list (map pkt_len (take k to_free)) < drop_bit 1 (backlogs (priv sch) ! idx))
     \<and> backlogs (priv sch')
         = (backlogs (priv sch))[idx := backlogs (priv sch) ! idx - sum_list (map pkt_len to_free)]
     \<and> memory_usage (priv sch') = memory_usage (priv sch) - sum_list (map mem_usage to_free)
     \<and> dropped (flows (priv sch') ! idx)
         = dropped (flows (priv sch) ! idx) + of_nat (length to_free)
     \<and> qstats_drops sch' = qstats_drops sch + of_nat (length to_free)
     \<and> qstats_backlog sch' = qstats_backlog sch - sum_list (map pkt_len to_free)
     \<and> qlen sch' = qlen sch - of_nat (length to_free)"
proof -
  define q where "q = priv sch"
  define bs where "bs = backlogs q"
  obtain m j where scan: "fat_flow_scan bs 0 0 0 = (m, j)"
    by (cases "fat_flow_scan bs 0 0 0") auto
  from some have ne: "bs \<noteq> []"
    by (auto simp add: bs_def q_def)
  note mx = fat_flow_scan_max [OF scan ne]
  from some obtain b where "b \<in> set bs" "b \<noteq> 0"
    by (auto simp add: bs_def q_def)
  with mx(3) have "b \<le> m"
    by (auto simp add: in_set_conv_nth)
  with \<open>b \<noteq> 0\<close> have m0: "m \<noteq> 0"
    by auto
  have len: "length (flows q) = length bs"
    using arg_cong [OF cons, of length] by (simp add: bs_def q_def)
  define flow where "flow = flows q ! j"
  from mx(1) len have fl: "array_at (flows q) (int j) = Inr flow"
    by (simp add: array_at_def flow_def)
  from mx(1) have ba: "array_at bs (int j) = Inr m"
    by (simp add: array_at_def mx(2))
  from cons mx(1) len have sum: "sum_list (map pkt_len (queue flow)) = m"
    using mx(2) by (simp add: flow_def bs_def q_def)
  with m0 have qne: "queue flow \<noteq> []"
    by auto
  define thr where "thr = drop_bit 1 m"
  have thr': "drop_bit (Suc 0) m = thr"
    by (simp add: thr_def)
  have "\<not> (0 + sum_list (map pkt_len (queue flow)) < thr)"
    using drop_bit_word_le [of 1 m] by (simp add: sum thr_def)
  from drop_loop_returns [OF qne this] obtain rest i' len' mem' tf'
    where dl: "drop_loop (queue flow) 0 0 0 [] max_packets thr = Inr (rest, i', len', mem', tf')"
    by (metis prod_cases5)
  from drop_loop_Inr [OF dl] obtain k where k: "1 \<le> k" "k \<le> length (queue flow)"
    "rest = drop k (queue flow)" "tf' = take k (queue flow)" "i' = of_nat k"
    "len' = sum_list (map pkt_len (take k (queue flow)))"
    "mem' = sum_list (map mem_usage (take k (queue flow)))"
    "\<not> (of_nat k < max_packets \<and> sum_list (map pkt_len (take k (queue flow))) < thr)"
    "\<forall>i. 1 \<le> i \<and> i < k \<longrightarrow>
       of_nat i < max_packets \<and> sum_list (map pkt_len (take i (queue flow))) < thr"
    by auto
  from k have lk: "length tf' = k"
    by simp
  define sch' where "sch' = sch\<lparr>qstats_drops := qstats_drops sch + i',
                            qstats_backlog := qstats_backlog sch - len',
                            qlen := qlen sch - i',
                            priv := q\<lparr>flows := (flows q)[j := flow\<lparr>queue := rest, dropped := dropped flow + i'\<rparr>],
                                       backlogs := bs[j := m - len'],
                                       memory_usage := memory_usage q - mem'\<rparr>\<rparr>"
  have res: "fq_codel_drop sch max_packets = Inr (j, tf', sch')"
    using n scan fl ba dl
    by (simp add: fq_codel_drop_def Let_def q_def [symmetric] bs_def [symmetric] bindE_def
          thr' sch'_def)
  have tk: "\<forall>i. i < k \<longrightarrow> take i tf' = take i (queue flow)"
    using k(4) by (simp add: min_def)
  show ?thesis
    apply (rule exI [of _ j], rule exI [of _ tf'], rule exI [of _ sch'])
    using res mx k lk tk len
    by (simp add: q_def [symmetric] bs_def [symmetric] flow_def [symmetric] thr' sch'_def)
qed

text \<open>
  Classification writes nothing but the cuckoo table: \<open>cuckoo_rehash\<close>, \<open>fq_codel_cuckoo_hash\<close>
  and \<open>fq_codel_classify\<close> return the scheduler data they were given with another
  \<open>hashtable\<close>.
\<close>

lemma cuckoo_rehash_from_table_only:
  "\<forall>q'. snd (cuckoo_rehash_from i q skb v) = Inr q' \<longrightarrow> q' = q\<lparr>hashtable := hashtable q'\<rparr>"
proof (induction i q skb v rule: cuckoo_rehash_from.induct)
  case (1 i q skb v)
  let ?N = "unat (flows_cnt q)"
  show ?case
  proof (cases "i < ?N")
    case False
    then show ?thesis
      by (subst cuckoo_rehash_from.simps) simp
  next
    case lt: True
    define ti where "ti = int (fq_codel_hash_modified q skb 0) - 1"
    show ?thesis
    proof (cases "array_at (hashtable q) ti")
      case (Inl e)
      then show ?thesis
        by (subst cuckoo_rehash_from.simps) (simp add: lt ti_def)
    next
      case b: (Inr b)
      show ?thesis
      proof (cases "b = 0")
        case True
        with b show ?thesis
          by (subst cuckoo_rehash_from.simps) (simp add: lt ti_def)
      next
        case bn: False
        define q1 where "q1 = q\<lparr>hashtable := (hashtable q)[nat ti := word_of_int v]\<rparr>"
        show ?thesis
        proof (cases "?N \<le> i + 1")
          case True
          with b bn lt show ?thesis
            by (subst cuckoo_rehash_from.simps) (simp add: ti_def)
        next
          case lt1: False
          show ?thesis
          proof (cases "array_at (flows q1) (uint b - 1)")
            case (Inl e)
            with b bn lt lt1 show ?thesis
              by (subst cuckoo_rehash_from.simps) (simp add: ti_def q1_def)
          next
            case f1: (Inr flow1)
            show ?thesis
            proof (cases "queue flow1")
              case Nil
              with f1 b bn lt lt1 show ?thesis
                by (subst cuckoo_rehash_from.simps) (simp add: ti_def q1_def)
            next
              case c1: (Cons skb1 rest1)
              define ti1 where "ti1 = int (fq_codel_hash_modified q1 skb1 1) - 1"
              show ?thesis
              proof (cases "array_at (hashtable q1) ti1")
                case (Inl e)
                with c1 f1 b bn lt lt1 show ?thesis
                  by (subst cuckoo_rehash_from.simps)
                     (simp add: ti_def q1_def ti1_def Let_def)
              next
                case b1: (Inr b1)
                show ?thesis
                proof (cases "b1 = 0")
                  case True
                  with b1 c1 f1 b bn lt lt1 show ?thesis
                    by (subst cuckoo_rehash_from.simps)
                       (simp add: ti_def q1_def ti1_def Let_def)
                next
                  case b1n: False
                  define q2 where "q2 = q1\<lparr>hashtable := (hashtable q1)[nat ti1 := word_of_int (uint b)]\<rparr>"
                  show ?thesis
                  proof (cases "array_at (flows q2) (uint b1 - 1)")
                    case (Inl e)
                    with b1n b1 c1 f1 b bn lt lt1 show ?thesis
                      by (subst cuckoo_rehash_from.simps)
                         (simp add: ti_def q1_def ti1_def Let_def
                            q2_def)
                  next
                    case f2: (Inr flow2)
                    show ?thesis
                    proof (cases "queue flow2")
                      case Nil
                      with f2 b1n b1 c1 f1 b bn lt lt1 show ?thesis
                        by (subst cuckoo_rehash_from.simps)
                           (simp add: ti_def q1_def ti1_def Let_def
                              q2_def)
                    next
                      case c2: (Cons skb2 rest2)
                      have N2: "flows_cnt q2 = flows_cnt q"
                        by (simp add: q2_def q1_def)
                      have nn: "\<not> \<not> i < ?N"
                        using lt by simp
                      note ih = "1.IH" [OF nn ti_def b bn q1_def refl refl lt1 f1 c1 ti1_def
                          b1 b1n q2_def refl f2 c2]
                      obtain n r where nr: "cuckoo_rehash_from (i + 1 + 1) q2 skb2 (uint b1) = (n, r)"
                        by (cases "cuckoo_rehash_from (i + 1 + 1) q2 skb2 (uint b1)")
                      with ih have "\<forall>q'. r = Inr q' \<longrightarrow> q' = q\<lparr>hashtable := hashtable q'\<rparr>"
                        by (auto simp add: q2_def q1_def)
                      with nr c2 f2 b1n b1 c1 f1 b bn lt lt1 show ?thesis
                        by (subst cuckoo_rehash_from.simps)
                           (simp add: ti_def q1_def ti1_def Let_def
                              q2_def)
                    qed
                  qed
                qed
              qed
            qed
          qed
        qed
      qed
    qed
  qed
qed


lemma cuckoo_rehash_table_only:
  "cuckoo_rehash q skb v = Inr q' \<Longrightarrow> \<exists>t. q' = q\<lparr>hashtable := t\<rparr>"
  using cuckoo_rehash_from_table_only [of 0 q skb v] unfolding cuckoo_rehash_def by blast

lemma fq_codel_cuckoo_hash_table_only:
  assumes "fq_codel_cuckoo_hash q skb = Inr (num, q')"
  shows "q' = q\<lparr>hashtable := hashtable q'\<rparr>"
  using assms
  by (auto simp add: fq_codel_cuckoo_hash_def Let_def
        elim!: bindE_InrE dest!: cuckoo_rehash_table_only split: if_splits list.splits)

lemma fq_codel_classify_table_only:
  assumes "fq_codel_classify skb sch = Inr (cls, qerr, sch0)"
  shows "sch0 = sch\<lparr>priv := (priv sch)\<lparr>hashtable := hashtable (priv sch0)\<rparr>\<rparr>"
proof (cases "TC_H_MAJ (priority skb) = handle sch \<and> TC_H_MIN (priority skb) > 0 \<and>
         TC_H_MIN (priority skb) \<le> flows_cnt (priv sch)")
  case True
  with assms show ?thesis
    by (simp add: fq_codel_classify_def Let_def)
next
  case False
  show ?thesis
  proof (cases "filter_list (priv sch)")
    case None
    with assms False obtain num q1 where c: "fq_codel_cuckoo_hash (priv sch) skb = Inr (num, q1)"
      and s: "sch0 = sch\<lparr>priv := q1\<rparr>"
      by (auto simp add: fq_codel_classify_def Let_def elim!: bindE_InrE)
    from fq_codel_cuckoo_hash_table_only [OF c] s show ?thesis
      by simp
  next
    case (Some tp)
    with assms False show ?thesis
      by (auto simp add: fq_codel_classify_def Let_def split: prod.splits if_splits)
  qed
qed

lemma mark_flow_as_non_empty_Inr:
  assumes "idx < 1024" and "length (empty_flow_mask q) = 32"
  shows "\<exists>m w. mark_flow_as_non_empty q idx = Inr (q\<lparr>empty_flow_mask := m, flow_mask_index := w\<rparr>)"
proof -
  from assms have d: "idx div 32 < 32" "idx div 32 < length (empty_flow_mask q)"
    by simp_all
  define w0 where "w0 = empty_flow_mask q ! (idx div 32) AND NOT (push_bit (32 - (idx mod 32 + 1)) 1)"
  show ?thesis
  proof (cases "w0 = 0")
    case True
    with d have "mark_flow_as_non_empty q idx
        = Inr (q\<lparr>empty_flow_mask := (empty_flow_mask q)[idx div 32 := w0],
                 flow_mask_index := flow_mask_index q AND NOT (push_bit (32 - (idx div 32 + 1)) 1)\<rparr>)"
      by (simp add: mark_flow_as_non_empty_def bindE_def array_at_def Let_def w0_def)
    then show ?thesis by blast
  next
    case False
    with d have "mark_flow_as_non_empty q idx
        = Inr (q\<lparr>empty_flow_mask := (empty_flow_mask q)[idx div 32 := w0],
                 flow_mask_index := flow_mask_index q\<rparr>)"
      by (simp add: mark_flow_as_non_empty_def bindE_def array_at_def Let_def w0_def)
    then show ?thesis by blast
  qed
qed

text \<open>
  The over-limit enqueue of \<open>pkt_t\<close>: the scheduler is initialised with four flows and a limit
  of 2, \<open>pkt_s1\<close> and \<open>pkt_s2\<close> are queued on slot 0, and \<open>pkt_t\<close> arrives for slot 1.
\<close>

lemmas limit2_defs = sch_limit2_def sch_flows4_def pkt_s1_def pkt_s2_def pkt_t_def

lemma fq_codel_init_limit2:
  "fq_codel_init fuel cd qdisc_zero
     (Some (tb_none\<lparr>TCA_FQ_CODEL_LIMIT := Some 2, TCA_FQ_CODEL_FLOWS := Some 4\<rparr>)) 1514 params0 7 11
     = Some (Inr sch_limit2)"
  by (simp add: fq_codel_init_def fq_codel_change_def fq_codel_change_trim_within over_limits_def
        tb_none_def limit2_defs concrete_defs memset_words_def memset_u32_def)

lemma enqueue_pkt_s1: "fq_codel_enqueue pkt_s1 sch_limit2 = Inr (Some 0, [], sch_s1)"
  by (simp add: enqueue_defs sch_s1_def limit2_defs concrete_defs)

lemma enqueue_pkt_s2: "fq_codel_enqueue pkt_s2 sch_s1 = Inr (Some 0, [], sch_s12)"
  by (simp add: enqueue_defs sch_s1_def sch_s12_def limit2_defs concrete_defs)

lemma replicate_4: "replicate 4 x = [x, x, x, x]"
  by (simp add: eval_nat_numeral)

lemma enqueue_pkt_t:
  "fq_codel_enqueue pkt_t sch_s12 = Inr (Some 0, [pkt_s1\<lparr>mem_usage := 256\<rparr>], sch_s2t)"
  by (simp add: enqueue_defs fq_codel_drop_def sch_s12_def sch_s2t_def limit2_defs concrete_defs
        replicate_4 NET_XMIT_CN_def)


text \<open>
  Claim C7, as amended. Let \<open>fq_codel_enqueue\<close> classify \<open>skb\<close> to flow slot \<open>idx < 1024\<close> of a
  scheduler whose \<open>backlogs\<close> array has \<open>flows_cnt\<close> entries, each the sum of the packet lengths
  queued on its flow, and let the packet count with \<open>skb\<close> exceed \<open>limit\<close> or the memory usage
  with \<open>skb\<close> exceed \<open>memory_limit\<close>. Write \<open>B\<close> for the backlogs and \<open>Q\<close> for the flow queues
  once \<open>skb\<close> is queued on \<open>idx\<close> (\<open>B[idx]\<close> not zero). Then the enqueue returns, and
  \<^item> the fat flow \<open>fat\<close> is the one a linear scan of \<open>B\<close> finds: \<open>B[fat]\<close> is the maximum and
    every earlier entry is smaller;
  \<^item> the packets put on \<open>to_free\<close> are the first \<open>k \<ge> 1\<close> packets of \<open>Q fat\<close>, in order; the
    rest of that queue stays and every other queue is as in \<open>Q\<close>;
  \<^item> \<open>k\<close> is the first count, from 1 on, at which the count has reached \<open>drop_batch_size\<close>
    or the dropped bytes have reached \<open>B[fat] >> 1\<close>, the integer half of the fat flow's
    backlog: one packet is dropped even when the cap is 0, and for an odd backlog the
    dropped bytes may be less than half of it;
  \<^item> \<open>backlogs[fat]\<close> and \<open>qstats.backlog\<close> go down by the dropped bytes, \<open>memory_usage\<close> by the
    dropped memory, \<open>qlen\<close> by \<open>k\<close> (each counted from the state with \<open>skb\<close> queued);
    \<open>qstats.drops\<close>, \<open>drop_overlimit\<close>, the fat flow's \<open>dropped\<close> and, when the memory limit is
    the one exceeded, \<open>drop_overmemory\<close> go up by \<open>k\<close>;
  \<^item> the return code is \<open>NET_XMIT_CN\<close> when \<open>fat = idx\<close> and \<open>NET_XMIT_SUCCESS\<close> otherwise.
\<close>

theorem fq_codel_enqueue_fat_flow_drop:
  assumes cls: "fq_codel_classify skb sch = Inr (Suc idx, qerr, sch0)"
      and slot: "idx < 1024"
      and mask: "length (empty_flow_mask (priv sch)) = 32"
      and n: "unat (flows_cnt (priv sch)) = length (backlogs (priv sch))"
      and cons: "backlogs (priv sch)
                   = map (\<lambda>f. sum_list (map pkt_len (queue f))) (flows (priv sch))"
      and inb: "idx < length (backlogs (priv sch))"
      and nz: "backlogs (priv sch) ! idx + pkt_len skb \<noteq> 0"
      and over: "limit sch < qlen sch + 1
                 \<or> memory_limit (priv sch) < memory_usage (priv sch) + truesize skb"
  shows "let B = (backlogs (priv sch))[idx := backlogs (priv sch) ! idx + pkt_len skb];
             Q = (\<lambda>j. if j = idx
                       then queue (flows (priv sch) ! idx) @ [skb\<lparr>mem_usage := truesize skb\<rparr>]
                       else queue (flows (priv sch) ! j))
         in \<exists>fat ret to_free sch'.
              fq_codel_enqueue skb sch = Inr (ret, to_free, sch')
            \<and> fat < length B
            \<and> (\<forall>j < length B. B ! j \<le> B ! fat)
            \<and> (\<forall>j < fat. B ! j < B ! fat)
            \<and> 1 \<le> length to_free
            \<and> to_free = take (length to_free) (Q fat)
            \<and> queue (flows (priv sch') ! fat) = drop (length to_free) (Q fat)
            \<and> (\<forall>j < length B. j \<noteq> fat \<longrightarrow> queue (flows (priv sch') ! j) = Q j)
            \<and> \<not> (of_nat (length to_free) < drop_batch_size (priv sch)
                  \<and> sum_list (map pkt_len to_free) < drop_bit 1 (B ! fat))
            \<and> (\<forall>k. 1 \<le> k \<and> k < length to_free \<longrightarrow>
                   of_nat k < drop_batch_size (priv sch)
                   \<and> sum_list (map pkt_len (take k to_free)) < drop_bit 1 (B ! fat))
            \<and> backlogs (priv sch') = B[fat := B ! fat - sum_list (map pkt_len to_free)]
            \<and> memory_usage (priv sch')
                = memory_usage (priv sch) + truesize skb - sum_list (map mem_usage to_free)
            \<and> qlen sch' = qlen sch + 1 - of_nat (length to_free)
            \<and> qstats_backlog sch'
                = qstats_backlog sch + pkt_len skb - sum_list (map pkt_len to_free)
            \<and> qstats_drops sch' = qstats_drops sch + of_nat (length to_free)
            \<and> drop_overlimit (priv sch')
                = drop_overlimit (priv sch) + of_nat (length to_free)
            \<and> drop_overmemory (priv sch')
                = (if memory_limit (priv sch) < memory_usage (priv sch) + truesize skb
                   then drop_overmemory (priv sch) + of_nat (length to_free)
                   else drop_overmemory (priv sch))
            \<and> dropped (flows (priv sch') ! fat)
                = (if fat = idx \<and> flowchain_empty (priv sch) idx then 0
                   else dropped (flows (priv sch) ! fat)) + of_nat (length to_free)
            \<and> ret = Some (if fat = idx then NET_XMIT_CN else NET_XMIT_SUCCESS)"
proof -
  define q where "q = priv sch"
  define t where "t = hashtable (priv sch0)"
  define q0 where "q0 = q\<lparr>hashtable := t\<rparr>"
  from fq_codel_classify_table_only [OF cls] have s0: "sch0 = sch\<lparr>priv := q0\<rparr>"
    by (simp add: q0_def q_def t_def)
  define flow where "flow = flows q ! idx"
  define b where "b = backlogs q ! idx"
  define skb1 where "skb1 = skb\<lparr>mem_usage := truesize skb\<rparr>"
  define B where "B = (backlogs q)[idx := b + pkt_len skb]"
  define Q where "Q = (\<lambda>j. if j = idx then queue flow @ [skb1] else queue (flows q ! j))"
  have len: "length (flows q) = length (backlogs q)"
    using arg_cong [OF cons, of length] by (simp add: q_def)
  from inb len have inf: "idx < length (flows q)" and inb': "idx < length (backlogs q)"
    by (simp_all add: q_def)
  have fl: "array_at (flows q) (int idx) = Inr flow"
    and ba: "array_at (backlogs q) (int idx) = Inr b"
    using inf inb' by (simp_all add: array_at_def flow_def b_def)
  define q1 where "q1 = q0\<lparr>flows := (flows q)[idx := flow_queue_add flow skb1], backlogs := B\<rparr>"
  have "length (empty_flow_mask q1) = 32"
    using mask by (simp add: q1_def q0_def q_def)
  from mark_flow_as_non_empty_Inr [OF slot this] obtain m w where
    mk: "mark_flow_as_non_empty q1 idx = Inr (q1\<lparr>empty_flow_mask := m, flow_mask_index := w\<rparr>)"
    by blast
  define q2 where "q2 = q1\<lparr>empty_flow_mask := m, flow_mask_index := w\<rparr>"
  define q3 where "q3 = (if flowchain_empty q2 idx
                         then q2\<lparr>new_flows := new_flows q2 @ [idx],
                                 new_flow_count := new_flow_count q2 + 1,
                                 flows := (flows q2)[idx := (flows q2 ! idx)\<lparr>deficit := quantum q2, dropped := 0\<rparr>]\<rparr>
                         else q2)"
  define q4 where "q4 = q3\<lparr>memory_usage := memory_usage q3 + truesize skb\<rparr>"
  define sch2 where "sch2 = sch\<lparr>qstats_backlog := qstats_backlog sch + pkt_len skb,
                                qlen := qlen sch + 1, priv := q4\<rparr>"
  have fe: "flowchain_empty q2 idx = flowchain_empty q idx"
    by (simp add: flowchain_empty_def q2_def q1_def q0_def)
  have q4_plain: "flows_cnt q4 = flows_cnt q" "backlogs q4 = B"
    "memory_usage q4 = memory_usage q + truesize skb" "memory_limit q4 = memory_limit q"
    "drop_batch_size q4 = drop_batch_size q" "drop_overlimit q4 = drop_overlimit q"
    "drop_overmemory q4 = drop_overmemory q" "length (flows q4) = length (flows q)"
    by (simp_all add: q4_def q3_def q2_def q1_def q0_def)
  have q4_queue: "queue (flows q4 ! j) = Q j" if "j < length (flows q)" for j
    using that inf
    by (simp add: q4_def q3_def q2_def q1_def q0_def Q_def flow_queue_add_def nth_list_update
          flow_def)
  have q4_dropped: "dropped (flows q4 ! j)
      = (if j = idx \<and> flowchain_empty q idx then 0 else dropped (flows q ! j))"
    if "j < length (flows q)" for j
    using that inf
    unfolding q4_def q3_def fe
    by (simp add: q2_def q1_def q0_def flow_queue_add_def nth_list_update flow_def)
  have n2: "unat (flows_cnt (priv sch2)) = length (backlogs (priv sch2))"
    using n by (simp add: sch2_def q4_plain B_def q_def)
  have cons2: "backlogs (priv sch2)
      = map (\<lambda>f. sum_list (map pkt_len (queue f))) (flows (priv sch2))"
  proof (rule nth_equalityI)
    show "length (backlogs (priv sch2))
        = length (map (\<lambda>f. sum_list (map pkt_len (queue f))) (flows (priv sch2)))"
      using len by (simp add: sch2_def q4_plain B_def)
  next
    fix j assume "j < length (backlogs (priv sch2))"
    then have j: "j < length (flows q)"
      using len by (simp add: sch2_def q4_plain B_def)
    have c: "backlogs q ! j = sum_list (map pkt_len (queue (flows q ! j)))"
      using j cons by (simp add: q_def)
    from j len show "backlogs (priv sch2) ! j
        = map (\<lambda>f. sum_list (map pkt_len (queue f))) (flows (priv sch2)) ! j"
      using c
      by (auto simp add: sch2_def q4_plain q4_queue B_def Q_def nth_list_update b_def flow_def
            skb1_def)
  qed
  have "B ! idx \<in> set B"
    using inb' by (intro nth_mem) (simp add: B_def)
  moreover have "B ! idx \<noteq> 0"
    using nz inb' by (simp add: B_def b_def q_def)
  ultimately have some2: "\<exists>x\<in>set (backlogs (priv sch2)). x \<noteq> 0"
    by (auto simp add: sch2_def q4_plain)
  from fq_codel_drop_fat_flow [OF n2 cons2 some2, of "drop_batch_size q"]
  obtain fat tf sch3 where
    dr: "fq_codel_drop sch2 (drop_batch_size q) = Inr (fat, tf, sch3)"
    and p: "fat < length (backlogs (priv sch2))"
      "\<forall>j < length (backlogs (priv sch2)). backlogs (priv sch2) ! j \<le> backlogs (priv sch2) ! fat"
      "\<forall>j < fat. backlogs (priv sch2) ! j < backlogs (priv sch2) ! fat"
      "1 \<le> length tf"
      "tf = take (length tf) (queue (flows (priv sch2) ! fat))"
      "queue (flows (priv sch3) ! fat) = drop (length tf) (queue (flows (priv sch2) ! fat))"
      "\<not> (of_nat (length tf) < drop_batch_size q
           \<and> sum_list (map pkt_len tf) < drop_bit 1 (backlogs (priv sch2) ! fat))"
      "\<forall>k. 1 \<le> k \<and> k < length tf \<longrightarrow>
            of_nat k < drop_batch_size q
            \<and> sum_list (map pkt_len (take k tf)) < drop_bit 1 (backlogs (priv sch2) ! fat)"
      "backlogs (priv sch3)
         = (backlogs (priv sch2))[fat := backlogs (priv sch2) ! fat - sum_list (map pkt_len tf)]"
      "memory_usage (priv sch3) = memory_usage (priv sch2) - sum_list (map mem_usage tf)"
      "dropped (flows (priv sch3) ! fat)
         = dropped (flows (priv sch2) ! fat) + of_nat (length tf)"
      "qstats_drops sch3 = qstats_drops sch2 + of_nat (length tf)"
      "qstats_backlog sch3 = qstats_backlog sch2 - sum_list (map pkt_len tf)"
      "qlen sch3 = qlen sch2 - of_nat (length tf)"
    by blast
  define ml where "ml = (memory_limit q < memory_usage q + truesize skb)"
  define q6 where "q6 = (priv sch3)\<lparr>drop_overlimit := drop_overlimit (priv sch3) + of_nat (length tf)\<rparr>"
  define q7 where "q7 = (if ml then q6\<lparr>drop_overmemory := drop_overmemory q6 + of_nat (length tf)\<rparr>
                         else q6)"
  define ret where "ret = Some (if fat = idx then NET_XMIT_CN else NET_XMIT_SUCCESS)"
  have enq: "fq_codel_enqueue skb sch = Inr (ret, tf, sch3\<lparr>priv := q7\<rparr>)"
  proof (cases "flowchain_empty q idx")
    case True
    from over have overc: "(qlen sch + 1 \<le> limit sch
        \<and> \<not> memory_limit q < memory_usage q + truesize skb) = False"
      by (auto simp add: q_def)
    from True have q3t: "q3 = q2\<lparr>new_flows := new_flows q2 @ [idx],
                                 new_flow_count := new_flow_count q2 + 1,
                                 flows := (flows q2)[idx := (flows q2 ! idx)\<lparr>deficit := quantum q2, dropped := 0\<rparr>]\<rparr>"
      by (simp add: q3_def fe)
    from fl ba mk dr [unfolded sch2_def q4_def q3t] p(14)
      fe [unfolded q2_def q1_def q0_def] True
    show ?thesis
      by (simp add: fq_codel_enqueue_def cls s0 bindE_def Let_def sch2_def q4_def q2_def
            q1_def q0_def skb1_def B_def ml_def q6_def q7_def ret_def overc)
  next
    case False
    from over have overc: "(qlen sch + 1 \<le> limit sch
        \<and> \<not> memory_limit q < memory_usage q + truesize skb) = False"
      by (auto simp add: q_def)
    from False have q3f: "q3 = q2"
      by (simp add: q3_def fe)
    from fl ba mk dr [unfolded sch2_def q4_def q3f] p(14)
      fe [unfolded q2_def q1_def q0_def] False
    show ?thesis
      by (simp add: fq_codel_enqueue_def cls s0 bindE_def Let_def sch2_def q4_def q2_def
            q1_def q0_def skb1_def B_def ml_def q6_def q7_def ret_def overc)
  qed
  from p(1) len have fatf: "fat < length (flows q)" and fatB: "fat < length B"
    by (simp_all add: sch2_def q4_plain B_def)
  have r1: "\<forall>j < length B. B ! j \<le> B ! fat" "\<forall>j < fat. B ! j < B ! fat"
    using p(2,3) by (simp_all add: sch2_def q4_plain)
  have r2: "tf = take (length tf) (Q fat)"
    "queue (flows q7 ! fat) = drop (length tf) (Q fat)"
    using p(5,6) fatf by (simp_all add: sch2_def q4_queue q7_def q6_def)
  have r3: "\<not> (of_nat (length tf) < drop_batch_size q
           \<and> sum_list (map pkt_len tf) < drop_bit 1 (B ! fat))"
    "\<forall>k. 1 \<le> k \<and> k < length tf \<longrightarrow>
            of_nat k < drop_batch_size q
            \<and> sum_list (map pkt_len (take k tf)) < drop_bit 1 (B ! fat)"
    using p(7,8) by (simp_all add: sch2_def q4_plain)
  have r4: "backlogs q7 = B[fat := B ! fat - sum_list (map pkt_len tf)]"
    "memory_usage q7 = memory_usage q + truesize skb - sum_list (map mem_usage tf)"
    "qlen sch3 = qlen sch + 1 - of_nat (length tf)"
    "qstats_backlog sch3 = qstats_backlog sch + pkt_len skb - sum_list (map pkt_len tf)"
    "qstats_drops sch3 = qstats_drops sch + of_nat (length tf)"
    using p(9,10,12,13,14) by (simp_all add: sch2_def q4_plain q7_def q6_def)
  have "drop_overlimit (priv sch3) = drop_overlimit q"
    "drop_overmemory (priv sch3) = drop_overmemory q"
    using dr
    by (auto simp add: fq_codel_drop_def Let_def sch2_def q4_plain elim!: bindE_InrE
          split: prod.splits if_splits)
  then have r5: "drop_overlimit q7 = drop_overlimit q + of_nat (length tf)"
    "drop_overmemory q7 = (if ml then drop_overmemory q + of_nat (length tf) else drop_overmemory q)"
    by (simp_all add: q7_def q6_def)
  have r6: "dropped (flows q7 ! fat)
      = (if fat = idx \<and> flowchain_empty q idx then 0 else dropped (flows q ! fat))
          + of_nat (length tf)"
    using p(11) fatf by (auto simp add: sch2_def q4_dropped q7_def q6_def)
  have "\<forall>j. j \<noteq> fat \<longrightarrow> flows (priv sch3) ! j = flows (priv sch2) ! j"
    using dr
    by (auto simp add: fq_codel_drop_def Let_def elim!: bindE_InrE split: prod.splits if_splits)
  then have r7: "\<forall>j < length B. j \<noteq> fat \<longrightarrow> queue (flows q7 ! j) = Q j"
    using len by (simp add: sch2_def q4_queue q7_def q6_def B_def)
  note facts = fatB r1 p(4) r2 r3 r4 r5 r6 r7
  show ?thesis
    unfolding Let_def
    apply (rule exI [of _ fat], rule exI [of _ ret], rule exI [of _ tf],
           rule exI [of _ "sch3\<lparr>priv := q7\<rparr>"])
    using enq facts [unfolded B_def Q_def b_def flow_def skb1_def ml_def q_def]
    by (simp add: ret_def)
qed


theorem fq_codel_enqueue_fat_flow_drop_witness:
  "fq_codel_classify pkt_t sch_s12 = Inr (Suc 1, None, sch_s12)
   \<and> length (empty_flow_mask (priv sch_s12)) = 32
   \<and> unat (flows_cnt (priv sch_s12)) = length (backlogs (priv sch_s12))
   \<and> backlogs (priv sch_s12)
        = map (\<lambda>f. sum_list (map pkt_len (queue f))) (flows (priv sch_s12))
   \<and> 1 < length (backlogs (priv sch_s12))
   \<and> backlogs (priv sch_s12) ! 1 + pkt_len pkt_t \<noteq> 0
   \<and> limit sch_s12 < qlen sch_s12 + 1
   \<and> (\<exists>fat ret to_free sch'.
         fq_codel_enqueue pkt_t sch_s12 = Inr (ret, to_free, sch')
         \<and> fat < (4::nat)
         \<and> 1 \<le> length to_free
         \<and> qlen sch' = 3 - of_nat (length to_free)
         \<and> drop_overlimit (priv sch') = of_nat (length to_free)
         \<and> ret = Some (if fat = (1::nat) then NET_XMIT_CN else NET_XMIT_SUCCESS))"
proof -
  have c: "fq_codel_classify pkt_t sch_s12 = Inr (Suc 1, None, sch_s12)"
    by (simp add: fq_codel_classify_def TC_H_MAJ_def TC_H_MIN_def sch_s12_def limit2_defs
          concrete_defs)
  have s: "(1::nat) < 1024"
    by simp
  have m: "length (empty_flow_mask (priv sch_s12)) = 32"
    and n: "unat (flows_cnt (priv sch_s12)) = length (backlogs (priv sch_s12))"
    and cons: "backlogs (priv sch_s12)
                 = map (\<lambda>f. sum_list (map pkt_len (queue f))) (flows (priv sch_s12))"
    and inb: "1 < length (backlogs (priv sch_s12))"
    and nz: "backlogs (priv sch_s12) ! 1 + pkt_len pkt_t \<noteq> 0"
    and lim: "limit sch_s12 < qlen sch_s12 + 1"
    by (simp_all add: sch_s12_def limit2_defs concrete_defs replicate_4)
  have l: "length (backlogs (priv sch_s12)) = 4" "qlen sch_s12 = 2"
    "drop_overlimit (priv sch_s12) = 0"
    by (simp_all add: sch_s12_def limit2_defs concrete_defs)
  from lim have over: "limit sch_s12 < qlen sch_s12 + 1
      \<or> memory_limit (priv sch_s12) < memory_usage (priv sch_s12) + truesize pkt_t"
    by blast
  from fq_codel_enqueue_fat_flow_drop [OF c s m n cons inb nz over, unfolded Let_def]
  obtain fat ret to_free sch' where
    "fq_codel_enqueue pkt_t sch_s12 = Inr (ret, to_free, sch')"
    "fat < length ((backlogs (priv sch_s12))[1 := backlogs (priv sch_s12) ! 1 + pkt_len pkt_t])"
    "1 \<le> length to_free"
    "qlen sch' = qlen sch_s12 + 1 - of_nat (length to_free)"
    "drop_overlimit (priv sch') = drop_overlimit (priv sch_s12) + of_nat (length to_free)"
    "ret = Some (if fat = (1::nat) then NET_XMIT_CN else NET_XMIT_SUCCESS)"
    by blast
  with l have "\<exists>fat ret to_free sch'.
         fq_codel_enqueue pkt_t sch_s12 = Inr (ret, to_free, sch')
         \<and> fat < (4::nat)
         \<and> 1 \<le> length to_free
         \<and> qlen sch' = 3 - of_nat (length to_free)
         \<and> drop_overlimit (priv sch') = of_nat (length to_free)
         \<and> ret = Some (if fat = (1::nat) then NET_XMIT_CN else NET_XMIT_SUCCESS)"
    by auto
  with c m n cons inb nz lim show ?thesis
    by blast
qed

text \<open>
  Claim C7 as stated says that the drop stops exactly when the count reaches
  \<open>drop_batch_size\<close> or the dropped bytes reach at least half of the fat flow's original
  backlog. In \<open>sch_s12\<close> slot 0 holds 100 + 101 = 201 bytes and the limit of 2 packets is
  reached. The enqueue of \<open>pkt_t\<close> on slot 1 exceeds the limit; the drop takes \<open>pkt_s1\<close> from
  slot 0 and stops: one packet of a cap of 64, and 100 bytes, less than half of 201, with
  \<open>pkt_s2\<close> still queued on the fat flow.
\<close>

theorem enqueue_drop_stops_below_half:
  "fq_codel_enqueue pkt_t sch_s12
     = Inr (Some NET_XMIT_SUCCESS, [pkt_s1\<lparr>mem_usage := 256\<rparr>], sch_s2t)
   \<and> limit sch_s12 < qlen sch_s12 + 1
   \<and> drop_batch_size (priv sch_s12) = 64
   \<and> backlogs (priv sch_s12) = [201, 0, 0, 0]
   \<and> pkt_len (pkt_s1\<lparr>mem_usage := 256\<rparr>) = 100
   \<and> backlogs (priv sch_s2t) = [101, 50, 0, 0]
   \<and> queue (flows (priv sch_s2t) ! 0) = [pkt_s2\<lparr>mem_usage := 256\<rparr>]
   \<and> qstats_drops sch_s2t = 1"
proof -
  have "limit sch_s12 < qlen sch_s12 + 1"
    "drop_batch_size (priv sch_s12) = 64"
    "backlogs (priv sch_s12) = [201, 0, 0, 0]"
    "pkt_len (pkt_s1\<lparr>mem_usage := 256\<rparr>) = 100"
    "backlogs (priv sch_s2t) = [101, 50, 0, 0]"
    "queue (flows (priv sch_s2t) ! 0) = [pkt_s2\<lparr>mem_usage := 256\<rparr>]"
    "qstats_drops sch_s2t = 1"
    by (simp_all add: sch_s12_def sch_s2t_def limit2_defs concrete_defs replicate_4)
  with enqueue_pkt_t show ?thesis
    by (simp add: NET_XMIT_SUCCESS_def)
qed

end
